theory Spec2Isabelle
  imports Complex_Main "HOL-Library.Sublist"
begin

unbundle bit_operations_syntax

section \<open>JavaScript primitives used by the exporters\<close>

text \<open>
  JavaScript numbers that hold integers are modelled as \<open>int\<close>; the one place where the
  source divides (\<open>currentLayer.width / SCREENBLOCKWIDTH\<close>) is modelled in \<open>rat\<close>,
  division by 32 being exact on doubles. A JavaScript string is a \<open>string\<close>, one
  \<open>char\<close> per code unit.
\<close>

subsection \<open>Counted loops\<close>

text \<open>
  \<open>for (let i = i0; i < n; ++i) body\<close>, the loop state threaded through the body.
  The bound is a rational because a screenblock count may be fractional.
\<close>

function for_loop :: "nat \<Rightarrow> rat \<Rightarrow> (nat \<Rightarrow> 's \<Rightarrow> 's) \<Rightarrow> 's \<Rightarrow> 's" where
  "for_loop i n body s = (if of_nat i < n then for_loop (Suc i) n body (body i s) else s)"
  by pat_completeness auto
termination
proof (relation "measure (\<lambda>(i, n, body, s). nat \<lceil>n\<rceil> - i)")
  show "wf (measure (\<lambda>(i, n, body, s). nat \<lceil>n\<rceil> - i))"
    by simp
next
  fix i :: nat and n :: rat and body :: "nat \<Rightarrow> 's \<Rightarrow> 's" and s :: 's
  assume lt: "of_nat i < n"
  have "of_int (int i) < n"
    using lt by simp
  then have "int i < \<lceil>n\<rceil>"
    by (simp add: less_ceiling_iff)
  then have "i < nat \<lceil>n\<rceil>"
    by linarith
  then show "((Suc i, n, body, body i s), (i, n, body, s))
      \<in> measure (\<lambda>(i, n, body, s). nat \<lceil>n\<rceil> - i)"
    by simp
qed

declare for_loop.simps [simp del]

subsection \<open>Number.prototype.toString, toUpperCase, padStart, slice\<close>

text \<open>The digit characters of \<open>toString\<close>, for radix 2 to 36.\<close>

definition digit_chars :: string where
  "digit_chars = ''0123456789abcdefghijklmnopqrstuvwxyz''"

definition digit_char :: "nat \<Rightarrow> char" where
  "digit_char d = digit_chars ! d"

text \<open>The digits of a natural number in the given radix, most significant first.\<close>

function digits_radix :: "nat \<Rightarrow> nat \<Rightarrow> string" where
  "digits_radix r n =
     (if r < 2 \<or> n < r then [digit_char n]
      else digits_radix r (n div r) @ [digit_char (n mod r)])"
  by pat_completeness auto
termination
  by (relation "measure snd") (auto intro: div_less_dividend)

declare digits_radix.simps [simp del]

text \<open>\<open>n.toString(radix)\<close> for an integer \<open>n\<close>: a minus sign, then the digits.\<close>

definition toString :: "nat \<Rightarrow> int \<Rightarrow> string" where
  "toString radix n =
     (if n < 0 then CHR ''-'' # digits_radix radix (nat (- n)) else digits_radix radix (nat n))"

text \<open>Template-literal and \<open>+\<close> conversion of a number to a string: radix 10.\<close>

definition num_str :: "int \<Rightarrow> string" where
  "num_str n = toString 10 n"

definition in_range :: "char \<Rightarrow> char \<Rightarrow> char \<Rightarrow> bool" where
  "in_range lo hi c \<longleftrightarrow> (of_char lo :: nat) \<le> of_char c \<and> (of_char c :: nat) \<le> of_char hi"

text \<open>\<open>toUpperCase\<close> on the ASCII letters (the exporters apply it to sanitized names
  and to hexadecimal digits only).\<close>

definition upper_char :: "char \<Rightarrow> char" where
  "upper_char c = (if in_range (CHR ''a'') (CHR ''z'') c then char_of (of_char c - (32::nat)) else c)"

definition toUpperCase :: "string \<Rightarrow> string" where
  "toUpperCase s = map upper_char s"

text \<open>\<open>s.padStart(n, fill)\<close>: the fill string repeated and cut to the missing length.\<close>

definition padStart :: "nat \<Rightarrow> string \<Rightarrow> string \<Rightarrow> string" where
  "padStart n fill s =
     (if n \<le> length s \<or> fill = [] then s
      else take (n - length s) (concat (replicate (n - length s) fill)) @ s)"

text \<open>\<open>s.slice(0, -k)\<close>: everything but the last \<open>k\<close> code units (the empty string when
  the string is shorter).\<close>

definition slice_end :: "nat \<Rightarrow> string \<Rightarrow> string" where
  "slice_end k s = take (length s - k) s"

subsection \<open>decimalToHex\<close>

definition decimalToHex :: "int \<Rightarrow> nat \<Rightarrow> string" where
  "decimalToHex p_decimal p_padding =
     ''0x'' @ padStart p_padding ''0'' (toUpperCase (toString 16 p_decimal))"

subsection \<open>The identifier sanitizer\<close>

text \<open>The character class \<open>[a-zA-Z0-9-_]\<close> of the regular expression.\<close>

definition ident_char :: "char \<Rightarrow> bool" where
  "ident_char c \<longleftrightarrow>
     in_range (CHR ''a'') (CHR ''z'') c \<or> in_range (CHR ''A'') (CHR ''Z'') c \<or>
     in_range (CHR ''0'') (CHR ''9'') c \<or> c = CHR ''-'' \<or> c = CHR ''_''"

text \<open>\<open>s.replace(/[^a-zA-Z0-9-_]/g, "_")\<close>.\<close>

definition sanitize :: "string \<Rightarrow> string" where
  "sanitize s = map (\<lambda>c. if ident_char c then c else CHR ''_'') s"

subsection \<open>Integer operators\<close>

text \<open>\<open>a % b\<close>: the remainder takes the sign of the dividend.\<close>

definition js_rem :: "int \<Rightarrow> int \<Rightarrow> int" where
  "js_rem a b = sgn a * (\<bar>a\<bar> mod \<bar>b\<bar>)"

text \<open>\<open>ToInt32\<close> on an integer, and \<open>a | b\<close>, which converts both operands first.\<close>

definition to_int32 :: "int \<Rightarrow> int" where
  "to_int32 n = (n + 2 ^ 31) mod 2 ^ 32 - 2 ^ 31"

definition js_or :: "int \<Rightarrow> int \<Rightarrow> int" where
  "js_or a b = to_int32 a OR to_int32 b"

definition nl :: string where
  "nl = [CHR 0x0A]"

definition dquote :: string where
  "dquote = [CHR 0x22]"

section \<open>The map model supplied by the host\<close>

text \<open>
  \<open>Cell.tileId\<close> is an integer in the host; the collaborator contract also admits the
  string \<open>"-1"\<close> as the blank sentinel, which is the second constructor.
\<close>

datatype tile_id = TileNum int | TileStrM1

record cell =
  tileId :: tile_id
  flippedHorizontally :: bool
  flippedVertically :: bool

record layer =
  name :: string
  layer_width :: int
  layer_height :: int
  isTileLayer :: bool
  cellAt :: "int \<Rightarrow> int \<Rightarrow> cell"

record tile_map =
  width :: int
  height :: int
  layers :: "layer list"

text \<open>The host's \<open>FileInfo\<close> object: three functions on path strings.\<close>

record file_info =
  completeBaseName :: "string \<Rightarrow> string"
  path :: "string \<Rightarrow> string"
  toNativeSeparators :: "string \<Rightarrow> string"

text \<open>What a call of \<open>write\<close> does besides returning: console and log calls, and files
  written (\<open>new TextFile(path, WriteOnly)\<close>, \<open>write(data)\<close>, \<open>commit()\<close>).\<close>

datatype effect =
    ConsoleTime string
  | ConsoleTimeEnd string
  | ConsoleLog string
  | TiledLog string
  | WriteFile string string

text \<open>
  \<open>currentTileID == "-1"\<close>. A number is compared with \<open>ToNumber("-1") = -1\<close>; a string
  is compared code unit by code unit.
\<close>

fun is_blank :: "tile_id \<Rightarrow> bool" where
  "is_blank (TileNum n) \<longleftrightarrow> n = - 1"
| "is_blank TileStrM1 \<longleftrightarrow> True"

section \<open>Regular mode (format "gba")\<close>

text \<open>The body of the innermost loop: the text appended for one cell. The string sentinel
  is blank, so it never reaches the second branch.\<close>

definition cell_text_gba :: "cell \<Rightarrow> string" where
  "cell_text_gba currentTile =
     (if is_blank (tileId currentTile) then ''0x0000, ''
      else (case tileId currentTile of
              TileNum n \<Rightarrow>
                (let id1 = (if flippedHorizontally currentTile then js_or n (push_bit 10 1) else n);
                     id2 = (if flippedVertically currentTile then js_or id1 (push_bit 11 1) else id1)
                 in decimalToHex id2 4 @ '', '')
            | TileStrM1 \<Rightarrow> ''0x0000, ''))"

text \<open>One pass of the \<open>y\<close> loop: the indentation, 32 cells, a newline.\<close>

definition row_gba :: "layer \<Rightarrow> nat \<Rightarrow> nat \<Rightarrow> nat \<Rightarrow> string \<Rightarrow> string" where
  "row_gba currentLayer j k y sourceFileData =
     for_loop 0 32
       (\<lambda>x src. src @ cell_text_gba (cellAt currentLayer (int x + 32 * int k) (int y + 32 * int j)))
       (sourceFileData @ ''    '') @ nl"

text \<open>One pass of the \<open>k\<close> loop: the comment, the counter, 32 rows, a blank line.
  The state is the source text and \<open>screenBlockID\<close>.\<close>

definition block_gba :: "layer \<Rightarrow> nat \<Rightarrow> nat \<Rightarrow> string \<times> nat \<Rightarrow> string \<times> nat" where
  "block_gba currentLayer j k st =
     (case st of (sourceFileData, screenBlockID) \<Rightarrow>
        (for_loop 0 32 (row_gba currentLayer j k)
           (sourceFileData @ ''    // Screeblock '' @ num_str (int screenBlockID) @ nl) @ nl,
         Suc screenBlockID))"

text \<open>The \<open>j\<close> and \<open>k\<close> loops over the screenblocks of a tile layer.\<close>

definition body_gba :: "layer \<Rightarrow> string \<Rightarrow> string" where
  "body_gba currentLayer sourceFileData =
     (let screenBlockCountX = of_int (layer_width currentLayer) / 32;
          screenBlockCountY = of_int (layer_height currentLayer) / 32
      in fst (for_loop 0 screenBlockCountY
                (\<lambda>j. for_loop 0 screenBlockCountX (block_gba currentLayer j))
                (sourceFileData, 0)))"

text \<open>One pass of the layer loop, on the pair of header and source text.\<close>

definition layer_step_gba :: "int \<Rightarrow> layer \<Rightarrow> string \<times> string \<Rightarrow> string \<times> string" where
  "layer_step_gba tilemapLength currentLayer st =
     (case st of (headerFileData, sourceFileData) \<Rightarrow>
        (let currentLayerName = sanitize (name currentLayer);
             src1 = sourceFileData @ ''const unsigned short '' @ currentLayerName @ ''[''
                    @ num_str tilemapLength @ ''] __attribute__((aligned(4))) ='' @ nl @ ''{'' @ nl;
             src2 = (if isTileLayer currentLayer then body_gba currentLayer src1 else src1)
         in (headerFileData @ ''extern const unsigned short '' @ currentLayerName @ ''[''
               @ num_str tilemapLength @ ''];'' @ nl,
             slice_end 3 src2 @ nl @ ''};'' @ nl @ nl)))"

text \<open>The two texts as they stand before the layer loop.\<close>

definition header_start_gba :: "string \<Rightarrow> tile_map \<Rightarrow> string" where
  "header_start_gba fileBaseName p_map =
     ''#ifndef _'' @ toUpperCase fileBaseName @ ''_H_'' @ nl
     @ ''#define _'' @ toUpperCase fileBaseName @ ''_H_'' @ nl @ nl
     @ ''#define '' @ toUpperCase fileBaseName @ ''_WIDTH '' @ num_str (width p_map) @ nl
     @ ''#define '' @ toUpperCase fileBaseName @ ''_HEIGHT '' @ num_str (height p_map) @ nl
     @ ''#define '' @ toUpperCase fileBaseName @ ''_LENGTH '' @ num_str (width p_map * height p_map)
     @ nl @ nl
     @ ''#ifdef __cplusplus'' @ nl @ ''extern '' @ dquote @ ''C'' @ dquote @ '' {'' @ nl
     @ ''#endif'' @ nl @ nl"

definition source_start :: "string \<Rightarrow> string" where
  "source_start fileBaseName = ''#include '' @ dquote @ fileBaseName @ ''.h'' @ dquote @ nl @ nl"

definition header_end :: string where
  "header_end = nl @ ''#ifdef __cplusplus'' @ nl @ ''}'' @ nl @ ''#endif'' @ nl @ nl @ ''#endif'' @ nl"

text \<open>The header and source text handed to the two \<open>TextFile\<close> objects.\<close>

definition export_gba :: "string \<Rightarrow> tile_map \<Rightarrow> string \<times> string" where
  "export_gba fileBaseName p_map =
     (let tilemapLength = width p_map * height p_map;
          st = for_loop 0 (of_nat (length (layers p_map)))
                 (\<lambda>i. layer_step_gba tilemapLength (layers p_map ! i))
                 (header_start_gba fileBaseName p_map, source_start fileBaseName)
      in (fst st @ header_end, slice_end 1 (snd st)))"

text \<open>The \<open>write\<close> function: the returned value (\<open>None\<close> for \<open>undefined\<close>) and the
  effects in order.\<close>

definition write_gba :: "file_info \<Rightarrow> tile_map \<Rightarrow> string \<Rightarrow> string option \<times> effect list" where
  "write_gba FileInfo p_map p_fileName =
     (if js_rem (width p_map) 32 \<noteq> 0 \<or> js_rem (height p_map) 32 \<noteq> 0 then
        (Some ''Export failed: Invalid map size! Map width and height must be a multiple of 32.'', [])
      else
        (let fileBaseName = sanitize (completeBaseName FileInfo p_fileName);
             filePath = toNativeSeparators FileInfo (path FileInfo p_fileName @ ''/'');
             out = export_gba fileBaseName p_map
         in (None,
             [WriteFile (filePath @ fileBaseName @ ''.h'') (fst out),
              TiledLog (''Tilemap exported to '' @ filePath @ fileBaseName @ ''.h''),
              WriteFile (filePath @ fileBaseName @ ''.c'') (snd out),
              TiledLog (''Tilemap exported to '' @ filePath @ fileBaseName @ ''.c'')])))"

section \<open>Affine mode (format "gba-affine")\<close>

text \<open>The text appended for one cell; the flip flags are not read.\<close>

definition cell_text_affine :: "cell \<Rightarrow> string" where
  "cell_text_affine currentTile =
     (if is_blank (tileId currentTile) then ''0x0000, ''
      else (case tileId currentTile of
              TileNum currentTileID \<Rightarrow> decimalToHex currentTileID 4 @ '', ''
            | TileStrM1 \<Rightarrow> ''0x0000, ''))"

text \<open>One pass of the \<open>y\<close> loop over the rows of the map.\<close>

definition row_affine :: "tile_map \<Rightarrow> layer \<Rightarrow> nat \<Rightarrow> string \<Rightarrow> string" where
  "row_affine p_map currentLayer y sourceFileData =
     for_loop 0 (of_int (width p_map))
       (\<lambda>x src. src @ cell_text_affine (cellAt currentLayer (int x) (int y)))
       (sourceFileData @ ''    '') @ nl"

text \<open>One pass of the layer loop. The array is opened for every layer; the rows, the cut
  of three characters and the closing text are inside the test for a tile layer.\<close>

definition layer_step_affine ::
    "tile_map \<Rightarrow> int \<Rightarrow> layer \<Rightarrow> string \<times> string \<Rightarrow> string \<times> string" where
  "layer_step_affine p_map tilemapLength currentLayer st =
     (case st of (headerFileData, sourceFileData) \<Rightarrow>
        (let currentLayerName = sanitize (name currentLayer);
             src1 = sourceFileData @ ''const unsigned short '' @ currentLayerName @ ''[''
                    @ num_str tilemapLength @ ''] __attribute__((aligned(4))) ='' @ nl @ ''{'' @ nl
         in (headerFileData @ ''extern const unsigned short '' @ currentLayerName @ ''[''
               @ num_str tilemapLength @ ''];'' @ nl,
             if isTileLayer currentLayer then
               slice_end 3 (for_loop 0 (of_int (height p_map)) (row_affine p_map currentLayer) src1)
               @ nl @ ''};'' @ nl @ nl
             else src1)))"

definition header_start_affine :: "string \<Rightarrow> tile_map \<Rightarrow> string" where
  "header_start_affine fileBaseName p_map =
     ''#ifndef _'' @ toUpperCase fileBaseName @ ''_H_'' @ nl
     @ ''#define _'' @ toUpperCase fileBaseName @ ''_H_'' @ nl @ nl
     @ ''#define '' @ toUpperCase fileBaseName @ ''_WIDTH  ('' @ num_str (width p_map) @ '')'' @ nl
     @ ''#define '' @ toUpperCase fileBaseName @ ''_HEIGHT ('' @ num_str (height p_map) @ '')'' @ nl
     @ ''#define '' @ toUpperCase fileBaseName @ ''_LENGTH (''
     @ num_str (width p_map * height p_map) @ '')'' @ nl @ nl
     @ ''#ifdef __cplusplus'' @ nl @ ''extern '' @ dquote @ ''C'' @ dquote @ '' {'' @ nl
     @ ''#endif'' @ nl @ nl"

definition export_affine :: "string \<Rightarrow> tile_map \<Rightarrow> string \<times> string" where
  "export_affine fileBaseName p_map =
     (let tilemapLength = width p_map * height p_map;
          st = for_loop 0 (of_nat (length (layers p_map)))
                 (\<lambda>i. layer_step_affine p_map tilemapLength (layers p_map ! i))
                 (header_start_affine fileBaseName p_map, source_start fileBaseName)
      in (fst st @ header_end, slice_end 1 (snd st)))"

text \<open>The size test at the head of \<open>write\<close>, and \<open>write\<close> itself; \<open>console.time\<close> is
  called before the test.\<close>

definition valid_affine_size :: "tile_map \<Rightarrow> bool" where
  "valid_affine_size p_map \<longleftrightarrow>
     (width p_map = 16 \<and> height p_map = 16) \<or> (width p_map = 32 \<and> height p_map = 32)
     \<or> (width p_map = 64 \<and> height p_map = 64) \<or> (width p_map = 128 \<and> height p_map = 128)"

definition write_affine :: "file_info \<Rightarrow> tile_map \<Rightarrow> string \<Rightarrow> string option \<times> effect list" where
  "write_affine FileInfo p_map p_fileName =
     (if \<not> valid_affine_size p_map then
        (Some ''Invalid map size! Map must be 16x16, 32x32, 64x64 or 128x128 in size.'',
         [ConsoleTime ''Export completed in''])
      else
        (let fileBaseName = sanitize (completeBaseName FileInfo p_fileName);
             filePath = toNativeSeparators FileInfo (path FileInfo p_fileName @ ''/'');
             out = export_affine fileBaseName p_map
         in (None,
             [ConsoleTime ''Export completed in'',
              WriteFile (filePath @ fileBaseName @ ''.h'') (fst out),
              ConsoleLog (''Tilemap exported to '' @ filePath @ fileBaseName @ ''.h''),
              WriteFile (filePath @ fileBaseName @ ''.c'') (snd out),
              ConsoleLog (''Tilemap exported to '' @ filePath @ fileBaseName @ ''.c''),
              ConsoleTimeEnd ''Export completed in''])))"

section \<open>The text each loop appends\<close>

text \<open>
  The loops only append to the source text, so each has a closed form: the text it adds.
  These are derived from the definitions above (lemmas \<open>row_gba_text\<close>,
  \<open>block_gba_text\<close>, \<open>body_gba_text\<close>, \<open>layer_step_gba_append\<close> and their affine
  counterparts) and are what the proofs work on.
\<close>

definition row_text :: "layer \<Rightarrow> nat \<Rightarrow> nat \<Rightarrow> nat \<Rightarrow> string" where
  "row_text L j k y =
     ''    '' @ concat (map (\<lambda>x. cell_text_gba (cellAt L (int x + 32 * int k) (int y + 32 * int j)))
                       [0..<32]) @ nl"

definition block_text :: "layer \<Rightarrow> nat \<Rightarrow> nat \<Rightarrow> nat \<Rightarrow> string" where
  "block_text L j k b =
     ''    // Screeblock '' @ num_str (int b) @ nl @ concat (map (row_text L j k) [0..<32]) @ nl"

text \<open>The number of passes of the \<open>k\<close> and of the \<open>j\<close> loop: the least counter that is
  not below the bound \<open>width / 32\<close>, respectively \<open>height / 32\<close>.\<close>

definition blocks_x :: "layer \<Rightarrow> nat" where
  "blocks_x L = nat \<lceil>(of_int (layer_width L) :: rat) / 32\<rceil>"

definition blocks_y :: "layer \<Rightarrow> nat" where
  "blocks_y L = nat \<lceil>(of_int (layer_height L) :: rat) / 32\<rceil>"

definition body_text :: "layer \<Rightarrow> string" where
  "body_text L =
     concat (map (\<lambda>j. concat (map (\<lambda>k. block_text L j k (j * blocks_x L + k)) [0..<blocks_x L]))
               [0..<blocks_y L])"

text \<open>The declaration lines of a layer, and all that one pass of the layer loop adds to
  the source text.\<close>

definition array_decl :: "int \<Rightarrow> layer \<Rightarrow> string" where
  "array_decl n L =
     ''const unsigned short '' @ sanitize (name L) @ ''['' @ num_str n
     @ ''] __attribute__((aligned(4))) =''"

definition extern_decl :: "int \<Rightarrow> layer \<Rightarrow> string" where
  "extern_decl n L =
     ''extern const unsigned short '' @ sanitize (name L) @ ''['' @ num_str n @ ''];'' @ nl"

definition layer_source_gba :: "int \<Rightarrow> layer \<Rightarrow> string" where
  "layer_source_gba n L = snd (layer_step_gba n L ([], []))"

definition row_text_affine :: "tile_map \<Rightarrow> layer \<Rightarrow> nat \<Rightarrow> string" where
  "row_text_affine m L y =
     ''    '' @ concat (map (\<lambda>x. cell_text_affine (cellAt L (int x) (int y))) [0..<nat (width m)]) @ nl"

definition body_text_affine :: "tile_map \<Rightarrow> layer \<Rightarrow> string" where
  "body_text_affine m L = concat (map (row_text_affine m L) [0..<nat (height m)])"

definition layer_source_affine :: "tile_map \<Rightarrow> int \<Rightarrow> layer \<Rightarrow> string" where
  "layer_source_affine m n L = snd (layer_step_affine m n L ([], []))"

section \<open>Reading the emitted text back\<close>

text \<open>
  The array of a layer is read back from the source text as a consumer would: the text
  between the first opening brace and the next closing brace, split on commas; a piece
  holds an entry when \<open>0x\<close> occurs in it, and the entry is the piece from there on.
\<close>

fun split_on :: "char \<Rightarrow> string \<Rightarrow> string list" where
  "split_on c [] = [[]]"
| "split_on c (x # xs) =
     (if x = c then [] # split_on c xs
      else (case split_on c xs of [] \<Rightarrow> [[x]] | p # ps \<Rightarrow> (x # p) # ps))"

fun from_0x :: "string \<Rightarrow> string option" where
  "from_0x (a # b # r) =
     (if a = CHR ''0'' \<and> b = CHR ''x'' then Some (a # b # r) else from_0x (b # r))"
| "from_0x r = None"

definition entries :: "string \<Rightarrow> string list" where
  "entries t =
     concat (map (\<lambda>p. case from_0x p of None \<Rightarrow> [] | Some e \<Rightarrow> [e]) (split_on (CHR '','') t))"

definition initializer :: "string \<Rightarrow> string" where
  "initializer t = takeWhile (\<lambda>c. c \<noteq> CHR ''}'') (drop 1 (dropWhile (\<lambda>c. c \<noteq> CHR ''{'') t))"

text \<open>Decoding an entry: the prefix \<open>0x\<close>, then at least one hexadecimal digit.\<close>

definition hex_digit_value :: "char \<Rightarrow> nat option" where
  "hex_digit_value c =
     (if in_range (CHR ''0'') (CHR ''9'') c then Some (of_char c - 48)
      else if in_range (CHR ''A'') (CHR ''F'') c then Some (of_char c - 55)
      else if in_range (CHR ''a'') (CHR ''f'') c then Some (of_char c - 87)
      else None)"

fun hex_value :: "nat \<Rightarrow> string \<Rightarrow> nat option" where
  "hex_value acc [] = Some acc"
| "hex_value acc (c # cs) =
     (case hex_digit_value c of None \<Rightarrow> None | Some d \<Rightarrow> hex_value (16 * acc + d) cs)"

definition decode_entry :: "string \<Rightarrow> nat option" where
  "decode_entry e =
     (case e of
        a # b # ds \<Rightarrow> if a = CHR ''0'' \<and> b = CHR ''x'' \<and> ds \<noteq> [] then hex_value 0 ds else None
      | _ \<Rightarrow> None)"

text \<open>The entry a cell contributes in regular mode: its text without the comma and the
  space that follow it.\<close>

definition cell_entry :: "cell \<Rightarrow> string" where
  "cell_entry c = slice_end 2 (cell_text_gba c)"

text \<open>The entries of a row, of a screenblock and of a whole tile layer, in the order of
  the loops.\<close>

definition row_entries :: "layer \<Rightarrow> nat \<Rightarrow> nat \<Rightarrow> nat \<Rightarrow> string list" where
  "row_entries L j k y =
     map (\<lambda>x. cell_entry (cellAt L (int x + 32 * int k) (int y + 32 * int j))) [0..<32]"

definition block_entries :: "layer \<Rightarrow> nat \<Rightarrow> nat \<Rightarrow> string list" where
  "block_entries L j k = concat (map (row_entries L j k) [0..<32])"

definition body_entries :: "layer \<Rightarrow> string list" where
  "body_entries L =
     concat (map (\<lambda>j. concat (map (block_entries L j) [0..<blocks_x L])) [0..<blocks_y L])"

text \<open>The contents of the files written, in order, and the test for a file write.\<close>

definition written :: "effect list \<Rightarrow> string list" where
  "written es = concat (map (\<lambda>e. case e of WriteFile p d \<Rightarrow> [d] | _ \<Rightarrow> []) es)"

definition is_write :: "effect \<Rightarrow> bool" where
  "is_write e = (case e of WriteFile p d \<Rightarrow> True | _ \<Rightarrow> False)"

section \<open>Auxiliary notions for the proofs\<close>

text \<open>Text that holds no comma and no \<open>x\<close>, hence no entry; characters that may occur
  in a number.\<close>

definition cosmetic :: "string \<Rightarrow> bool" where
  "cosmetic t \<longleftrightarrow> CHR '','' \<notin> set t \<and> CHR ''x'' \<notin> set t"

definition word_char :: "char \<Rightarrow> bool" where
  "word_char c \<longleftrightarrow> c \<noteq> CHR '','' \<and> c \<noteq> CHR ''x'' \<and> c \<noteq> CHR ''{'' \<and> c \<noteq> CHR ''}''"

text \<open>
  \<open>chunked X es t\<close>: the text \<open>X\<close> holds the entries \<open>es\<close>, each followed by a comma,
  with only cosmetic text in between, and ends with the cosmetic text \<open>t\<close> after the last
  comma.
\<close>

definition chunked :: "string \<Rightarrow> string list \<Rightarrow> string \<Rightarrow> bool" where
  "chunked X es t \<longleftrightarrow>
     cosmetic t \<and>
     (if es = [] then X = t
      else \<exists>Y. X = Y @ CHR '','' # t \<and> (\<forall>j. cosmetic j \<longrightarrow> entries (j @ Y) = es))"

text \<open>The value of a tile entry: the tileId with the two flip bits.\<close>

definition flip_value :: "int \<Rightarrow> bool \<Rightarrow> bool \<Rightarrow> int" where
  "flip_value n fh fv = n OR (if fh then 2 ^ 10 else 0) OR (if fv then 2 ^ 11 else 0)"

text \<open>Two layers that the exporters cannot tell apart: the same name, kind and size, and
  the same cell at every coordinate that is not negative. Two maps of the same size whose
  layers are such.\<close>

definition same_layer :: "layer \<Rightarrow> layer \<Rightarrow> bool" where
  "same_layer L1 L2 \<longleftrightarrow>
     name L1 = name L2 \<and> isTileLayer L1 = isTileLayer L2
     \<and> layer_width L1 = layer_width L2 \<and> layer_height L1 = layer_height L2
     \<and> (\<forall>x y. 0 \<le> x \<and> 0 \<le> y \<longrightarrow> cellAt L1 x y = cellAt L2 x y)"

definition same_map :: "tile_map \<Rightarrow> tile_map \<Rightarrow> bool" where
  "same_map m1 m2 \<longleftrightarrow>
     width m1 = width m2 \<and> height m1 = height m2 \<and> list_all2 same_layer (layers m1) (layers m2)"

section \<open>Concrete maps\<close>

text \<open>A 32x32 tile layer whose cell at \<open>(x, y)\<close> has tileId \<open>32 y + x\<close>; the same layer
  with width 64; the same layer with other cells at negative coordinates.\<close>

definition seq_cell :: "int \<Rightarrow> int \<Rightarrow> cell" where
  "seq_cell x y = \<lparr>tileId = TileNum (32 * y + x), flippedHorizontally = False, flippedVertically = False\<rparr>"

definition seq_layer :: layer where
  "seq_layer = \<lparr>name = ''My Layer #1'', layer_width = 32, layer_height = 32, isTileLayer = True,
     cellAt = seq_cell\<rparr>"

definition wide_layer :: layer where
  "wide_layer = seq_layer\<lparr>layer_width := 64\<rparr>"

definition wide_map :: tile_map where
  "wide_map = \<lparr>width = 32, height = 32, layers = [wide_layer]\<rparr>"

definition blank_cell :: cell where
  "blank_cell = \<lparr>tileId = TileNum (- 1), flippedHorizontally = False, flippedVertically = False\<rparr>"

definition shadow_layer :: layer where
  "shadow_layer = seq_layer\<lparr>cellAt := (\<lambda>x y. if x < 0 \<or> y < 0 then blank_cell else seq_cell x y)\<rparr>"

text \<open>An object layer, a map that holds only it, and maps without layers.\<close>

definition object_layer :: layer where
  "object_layer = \<lparr>name = ''objs'', layer_width = 16, layer_height = 16, isTileLayer = False,
     cellAt = (\<lambda>x y. blank_cell)\<rparr>"

definition objects_map :: tile_map where
  "objects_map = \<lparr>width = 16, height = 16, layers = [object_layer]\<rparr>"

definition zero_map :: tile_map where
  "zero_map = \<lparr>width = 0, height = 0, layers = []\<rparr>"

definition empty_map :: "int \<Rightarrow> int \<Rightarrow> tile_map" where
  "empty_map w h = \<lparr>width = w, height = h, layers = []\<rparr>"

text \<open>A host whose file names have no directory part.\<close>

definition stub_info :: file_info where
  "stub_info = \<lparr>completeBaseName = takeWhile (\<lambda>c. c \<noteq> CHR ''.''), path = (\<lambda>p. ''.''),
     toNativeSeparators = id\<rparr>"

section \<open>Properties\<close>

lemma ident_char_underscore: "ident_char (CHR ''_'')"
  by (simp add: ident_char_def)

lemma sanitize_chars: "c \<in> set (sanitize s) \<Longrightarrow> ident_char c"
  by (auto simp: sanitize_def ident_char_underscore)

lemma in_range_mem:
  assumes "in_range lo hi c"
  shows "c \<in> set (map char_of [of_char lo..<Suc (of_char hi)])"
proof -
  have "(of_char lo :: nat) \<le> of_char c" "(of_char c :: nat) < Suc (of_char hi)"
    using assms by (simp_all add: in_range_def less_Suc_eq_le)
  then have "(of_char c :: nat) \<in> set [of_char lo..<Suc (of_char hi)]"
    by (simp only: set_upt atLeastLessThan_iff simp_thms)
  then have "char_of (of_char c :: nat) \<in> set (map char_of [of_char lo..<Suc (of_char hi)])"
    unfolding set_map by (rule imageI)
  then show ?thesis by simp
qed

lemma lower_letters: "map char_of [of_char (CHR ''a'')..<Suc (of_char (CHR ''z''))] = ''abcdefghijklmnopqrstuvwxyz''"
  by code_simp

lemma upper_letters: "map char_of [of_char (CHR ''A'')..<Suc (of_char (CHR ''Z''))] = ''ABCDEFGHIJKLMNOPQRSTUVWXYZ''"
  by code_simp

lemma digit_letters: "map char_of [of_char (CHR ''0'')..<Suc (of_char (CHR ''9''))] = ''0123456789''"
  by code_simp

lemma ident_char_iff:
  "ident_char c \<longleftrightarrow>
     c \<in> set (''abcdefghijklmnopqrstuvwxyz'' @ ''ABCDEFGHIJKLMNOPQRSTUVWXYZ'' @ ''0123456789'' @ ''-_'')"
proof
  assume "ident_char c"
  then consider "in_range (CHR ''a'') (CHR ''z'') c" | "in_range (CHR ''A'') (CHR ''Z'') c"
    | "in_range (CHR ''0'') (CHR ''9'') c" | "c = CHR ''-''" | "c = CHR ''_''"
    unfolding ident_char_def by blast
  then show "c \<in> set (''abcdefghijklmnopqrstuvwxyz'' @ ''ABCDEFGHIJKLMNOPQRSTUVWXYZ'' @ ''0123456789'' @ ''-_'')"
  proof cases
    case 1
    from in_range_mem [OF this] show ?thesis
      unfolding lower_letters by (simp only: set_append UnI1)
  next
    case 2
    from in_range_mem [OF this] show ?thesis
      unfolding upper_letters by (simp only: set_append UnI1 UnI2)
  next
    case 3
    from in_range_mem [OF this] show ?thesis
      unfolding digit_letters by (simp only: set_append UnI1 UnI2)
  next
    case 4
    then show ?thesis by simp
  next
    case 5
    then show ?thesis by simp
  qed
next
  have "list_all ident_char (''abcdefghijklmnopqrstuvwxyz'' @ ''ABCDEFGHIJKLMNOPQRSTUVWXYZ'' @ ''0123456789'' @ ''-_'')"
    by (simp add: ident_char_def in_range_def)
  moreover assume "c \<in> set (''abcdefghijklmnopqrstuvwxyz'' @ ''ABCDEFGHIJKLMNOPQRSTUVWXYZ'' @ ''0123456789'' @ ''-_'')"
  ultimately show "ident_char c"
    unfolding list_all_iff by blast
qed

lemma for_loop_fold: "for_loop i n body s = fold body [i..<nat \<lceil>n\<rceil>] s"
proof (induction i n body s rule: for_loop.induct)
  case (1 i n body s)
  show ?case
  proof (cases "of_nat i < n")
    case True
    then have "of_int (int i) < n" by simp
    then have "int i < \<lceil>n\<rceil>" by (simp add: less_ceiling_iff)
    then have lt: "i < nat \<lceil>n\<rceil>" by linarith
    have "for_loop i n body s = for_loop (Suc i) n body (body i s)"
      using True by (subst for_loop.simps) simp
    also have "\<dots> = fold body [Suc i..<nat \<lceil>n\<rceil>] (body i s)"
      using "1.IH" [OF True] .
    also have "\<dots> = fold body [i..<nat \<lceil>n\<rceil>] s"
      using lt by (simp add: upt_conv_Cons)
    finally show ?thesis .
  next
    case False
    then have "n \<le> of_int (int i)" by simp
    then have "\<lceil>n\<rceil> \<le> int i" by (simp add: ceiling_le_iff)
    then have "nat \<lceil>n\<rceil> \<le> i" by linarith
    moreover have "for_loop i n body s = s"
      using False by (subst for_loop.simps) simp
    ultimately show ?thesis by simp
  qed
qed

lemma fold_append_text: "fold (\<lambda>x src. src @ f x) xs s = s @ concat (map f xs)"
  by (induction xs arbitrary: s) simp_all

lemma fold_nth_upt: "fold (\<lambda>i. f (xs ! i)) [0..<length xs] s = fold f xs s"
proof -
  have "fold (\<lambda>i. f (xs ! i)) [0..<length xs] s = fold f (map ((!) xs) [0..<length xs]) s"
    by (simp add: fold_map comp_def)
  then show ?thesis by (simp add: map_nth)
qed

lemma row_gba_text: "row_gba L j k y src = src @ row_text L j k y"
  by (simp add: row_gba_def row_text_def for_loop_fold fold_append_text)

lemma block_gba_text: "block_gba L j k (src, b) = (src @ block_text L j k b, Suc b)"
proof -
  have "(\<lambda>y s. row_gba L j k y s) = (\<lambda>y s. s @ row_text L j k y)"
    by (simp add: row_gba_text fun_eq_iff)
  then have "row_gba L j k = (\<lambda>y s. s @ row_text L j k y)" .
  then show ?thesis
    by (simp add: block_gba_def block_text_def for_loop_fold fold_append_text)
qed

lemma fold_block_gba:
  "fold (block_gba L j) [0..<n] (src, b)
     = (src @ concat (map (\<lambda>k. block_text L j k (b + k)) [0..<n]), b + n)"
  by (induction n) (simp_all add: block_gba_text)

lemma fold_fold_block_gba:
  "fold (\<lambda>j. fold (block_gba L j) [0..<nx]) [0..<ny] (src, 0)
     = (src @ concat (map (\<lambda>j. concat (map (\<lambda>k. block_text L j k (j * nx + k)) [0..<nx])) [0..<ny]),
        ny * nx)"
  by (induction ny) (simp_all add: fold_block_gba)

lemma for_loop_fold_fun: "for_loop i n body = fold body [i..<nat \<lceil>n\<rceil>]"
  by (rule ext) (rule for_loop_fold)

lemma body_gba_text: "body_gba L src = src @ body_text L"
  by (simp add: body_gba_def body_text_def blocks_x_def blocks_y_def Let_def for_loop_fold_fun
      fold_fold_block_gba)

lemma split_on_not_Nil: "split_on c s \<noteq> []"
  by (induction s) (auto split: list.splits)

lemma split_on_append: "split_on c (a @ c # b) = split_on c a @ split_on c b"
proof (induction a)
  case Nil
  show ?case by simp
next
  case (Cons x a)
  obtain p ps where sp: "split_on c a = p # ps"
    using split_on_not_Nil [of c a] by (cases "split_on c a") auto
  show ?case
    using Cons sp by simp
qed

lemma split_on_none: "c \<notin> set a \<Longrightarrow> split_on c a = [a]"
  by (induction a) auto

lemma from_0x_none: "CHR ''x'' \<notin> set j \<Longrightarrow> from_0x j = None"
  by (induction j rule: from_0x.induct) auto

lemma from_0x_skip: "CHR ''x'' \<notin> set j \<Longrightarrow> from_0x (j @ CHR ''0'' # CHR ''x'' # d) = Some (CHR ''0'' # CHR ''x'' # d)"
proof (induction j)
  case Nil
  show ?case by simp
next
  case (Cons a j)
  then show ?case by (cases j) auto
qed

lemma entries_append: "entries (a @ CHR '','' # b) = entries a @ entries b"
  by (simp add: entries_def split_on_append)

lemma entries_cosmetic: "cosmetic t \<Longrightarrow> entries t = []"
  by (simp add: entries_def cosmetic_def split_on_none from_0x_none)

lemma entries_single:
  assumes "cosmetic j" and "CHR '','' \<notin> set d"
  shows "entries (j @ CHR ''0'' # CHR ''x'' # d) = [CHR ''0'' # CHR ''x'' # d]"
proof -
  have "CHR '','' \<notin> set (j @ CHR ''0'' # CHR ''x'' # d)"
    using assms by (simp add: cosmetic_def)
  then have "split_on (CHR '','') (j @ CHR ''0'' # CHR ''x'' # d) = [j @ CHR ''0'' # CHR ''x'' # d]"
    by (rule split_on_none)
  then show ?thesis
    using assms(1) by (simp add: entries_def cosmetic_def from_0x_skip)
qed

lemma cosmetic_append [simp]: "cosmetic (a @ b) \<longleftrightarrow> cosmetic a \<and> cosmetic b"
  by (auto simp: cosmetic_def)

lemma cosmetic_Nil [simp]: "cosmetic []"
  by (simp add: cosmetic_def)

lemma chunked_cosmetic: "cosmetic t \<Longrightarrow> chunked t [] t"
  by (simp add: chunked_def)

lemma chunked_entry:
  assumes "CHR '','' \<notin> set d" and "cosmetic t"
  shows "chunked (CHR ''0'' # CHR ''x'' # d @ CHR '','' # t) [CHR ''0'' # CHR ''x'' # d] t"
proof -
  have "\<forall>j. cosmetic j \<longrightarrow> entries (j @ CHR ''0'' # CHR ''x'' # d) = [CHR ''0'' # CHR ''x'' # d]"
    using assms(1) by (simp add: entries_single)
  moreover have "CHR ''0'' # CHR ''x'' # d @ CHR '','' # t = (CHR ''0'' # CHR ''x'' # d) @ CHR '','' # t"
    by simp
  ultimately show ?thesis
    unfolding chunked_def using assms(2) by (metis list.distinct(1))
qed

lemma chunked_append:
  assumes "chunked X es t" and "chunked X2 es2 t2"
  shows "chunked (X @ X2) (es @ es2) (if es2 = [] then t @ t2 else t2)"
proof (cases "es2 = []")
  case e2: True
  then have X2: "X2 = t2" and c2: "cosmetic t2" using assms(2) by (simp_all add: chunked_def)
  show ?thesis
  proof (cases "es = []")
    case True
    then show ?thesis using assms e2 by (simp add: chunked_def)
  next
    case False
    then obtain Y where Y: "X = Y @ CHR '','' # t" "\<forall>j. cosmetic j \<longrightarrow> entries (j @ Y) = es" and c: "cosmetic t"
      using assms(1) by (auto simp: chunked_def)
    have "X @ X2 = Y @ CHR '','' # (t @ t2)" using Y X2 by simp
    then show ?thesis using False e2 Y(2) c c2 by (auto simp: chunked_def)
  qed
next
  case e2: False
  then obtain Y2 where Y2: "X2 = Y2 @ CHR '','' # t2" "\<forall>j. cosmetic j \<longrightarrow> entries (j @ Y2) = es2" and c2: "cosmetic t2"
    using assms(2) by (auto simp: chunked_def)
  show ?thesis
  proof (cases "es = []")
    case True
    then have X: "X = t" and c: "cosmetic t" using assms(1) by (simp_all add: chunked_def)
    have eq: "X @ X2 = (t @ Y2) @ CHR '','' # t2" using X Y2 by simp
    have "\<forall>j. cosmetic j \<longrightarrow> entries (j @ t @ Y2) = es2"
    proof (intro allI impI)
      fix j assume "cosmetic j"
      then have "cosmetic (j @ t)" using c by simp
      then have "entries ((j @ t) @ Y2) = es2" using Y2(2) by blast
      then show "entries (j @ t @ Y2) = es2" by simp
    qed
    then show ?thesis using True e2 c2 eq unfolding chunked_def by auto
  next
    case False
    then obtain Y where Y: "X = Y @ CHR '','' # t" "\<forall>j. cosmetic j \<longrightarrow> entries (j @ Y) = es" and c: "cosmetic t"
      using assms(1) by (auto simp: chunked_def)
    have eq: "X @ X2 = (Y @ CHR '','' # t @ Y2) @ CHR '','' # t2" using Y Y2 by simp
    have "\<forall>j. cosmetic j \<longrightarrow> entries (j @ Y @ CHR '','' # t @ Y2) = es @ es2"
    proof (intro allI impI)
      fix j assume j: "cosmetic j"
      have "entries (j @ Y @ CHR '','' # t @ Y2) = entries ((j @ Y) @ CHR '','' # (t @ Y2))" by simp
      also have "\<dots> = entries (j @ Y) @ entries (t @ Y2)" by (rule entries_append)
      also have "\<dots> = es @ es2" using Y(2) Y2(2) j c by simp
      finally show "entries (j @ Y @ CHR '','' # t @ Y2) = es @ es2" .
    qed
    then show ?thesis using False e2 c2 eq unfolding chunked_def by auto
  qed
qed

lemma length_digit_chars: "length digit_chars = 36"
  by (simp add: digit_chars_def)

lemma digit_char_mem:
  assumes "m < r" and "r \<le> 36"
  shows "digit_char m \<in> set (take r digit_chars)"
proof -
  have "m < length (take r digit_chars)"
    using assms by (simp add: length_digit_chars)
  then have "take r digit_chars ! m \<in> set (take r digit_chars)"
    by (rule nth_mem)
  then show ?thesis using assms by (simp add: digit_char_def)
qed

lemma digits_radix_chars:
  "2 \<le> r \<Longrightarrow> r \<le> 36 \<Longrightarrow> set (digits_radix r n) \<subseteq> set (take r digit_chars)"
proof (induction r n rule: digits_radix.induct)
  case (1 r n)
  show ?case
  proof (cases "n < r")
    case True
    then have "digit_char n \<in> set (take r digit_chars)"
      using "1.prems"(2) by (rule digit_char_mem)
    moreover have "digits_radix r n = [digit_char n]"
      using True by (subst digits_radix.simps) simp
    ultimately show ?thesis by simp
  next
    case False
    have "0 < r" using "1.prems" by simp
    then have "n mod r < r" by simp
    then have d: "digit_char (n mod r) \<in> set (take r digit_chars)"
      using "1.prems"(2) by (rule digit_char_mem)
    have "digits_radix r n = digits_radix r (n div r) @ [digit_char (n mod r)]"
      using False "1.prems" by (subst digits_radix.simps) simp
    moreover have "set (digits_radix r (n div r)) \<subseteq> set (take r digit_chars)"
      using "1.IH" False "1.prems" by simp
    ultimately show ?thesis
      using d by simp
  qed
qed

lemma upper_digits_word: "list_all (\<lambda>c. word_char (upper_char c)) (CHR ''-'' # take 16 digit_chars)"
  by (simp add: digit_chars_def upper_char_def in_range_def word_char_def char_of_eq_iff)

lemma decimal_digits_word: "list_all word_char (CHR ''-'' # take 10 digit_chars)"
  by (simp add: digit_chars_def word_char_def)

lemma toString_16_word:
  assumes "c \<in> set (toUpperCase (toString 16 n))"
  shows "word_char c"
proof -
  have sub: "set (toString 16 n) \<subseteq> set (CHR ''-'' # take 16 digit_chars)"
    using digits_radix_chars [of 16 "nat n"] digits_radix_chars [of 16 "nat (- n)"]
    by (auto simp: toString_def)
  obtain a where a: "a \<in> set (toString 16 n)" "c = upper_char a"
    using assms by (auto simp: toUpperCase_def)
  then have "a \<in> set (CHR ''-'' # take 16 digit_chars)"
    using sub by blast
  then show ?thesis
    using upper_digits_word a(2) unfolding list_all_iff by blast
qed

lemma num_str_word:
  assumes "c \<in> set (num_str n)"
  shows "word_char c"
proof -
  have "set (num_str n) \<subseteq> set (CHR ''-'' # take 10 digit_chars)"
    using digits_radix_chars [of 10 "nat n"] digits_radix_chars [of 10 "nat (- n)"]
    by (auto simp: num_str_def toString_def)
  then have "c \<in> set (CHR ''-'' # take 10 digit_chars)"
    using assms by blast
  then show ?thesis
    using decimal_digits_word unfolding list_all_iff by blast
qed

lemma concat_replicate_single: "concat (replicate m [c]) = replicate m c"
  by (induction m) simp_all

lemma padStart_zero: "padStart n ''0'' s = replicate (n - length s) (CHR ''0'') @ s"
  by (simp add: padStart_def concat_replicate_single)

lemma decimalToHex_word:
  "\<exists>d. decimalToHex n p = CHR ''0'' # CHR ''x'' # d \<and> (\<forall>c\<in>set d. word_char c)"
proof -
  have "\<forall>c\<in>set (padStart p ''0'' (toUpperCase (toString 16 n))). word_char c"
    unfolding padStart_zero using toString_16_word [of _ n] by (auto simp: word_char_def)
  then show ?thesis by (simp add: decimalToHex_def)
qed

lemma cell_text_gba_word:
  "\<exists>d. cell_text_gba c = CHR ''0'' # CHR ''x'' # d @ '', '' \<and> (\<forall>c\<in>set d. word_char c)"
proof (cases "is_blank (tileId c)")
  case True
  have "\<forall>c\<in>set ''0000''. word_char c" by (simp add: word_char_def)
  moreover have "cell_text_gba c = CHR ''0'' # CHR ''x'' # ''0000'' @ '', ''"
    using True by (simp add: cell_text_gba_def)
  ultimately show ?thesis by blast
next
  case False
  then obtain n where n: "tileId c = TileNum n"
    by (cases "tileId c") auto
  obtain v where v: "cell_text_gba c = decimalToHex v 4 @ '', ''"
    using False n by (simp add: cell_text_gba_def Let_def)
  obtain d where "decimalToHex v 4 = CHR ''0'' # CHR ''x'' # d" "\<forall>c\<in>set d. word_char c"
    using decimalToHex_word by blast
  then show ?thesis using v by simp
qed

lemma cell_entry_text: "cell_text_gba c = cell_entry c @ '', ''"
proof -
  obtain d where "cell_text_gba c = CHR ''0'' # CHR ''x'' # d @ '', ''"
    using cell_text_gba_word by blast
  then show ?thesis by (simp add: cell_entry_def slice_end_def)
qed

lemma cell_entry_word:
  "\<exists>d. cell_entry c = CHR ''0'' # CHR ''x'' # d \<and> (\<forall>c\<in>set d. word_char c)"
proof -
  obtain d where d: "cell_text_gba c = CHR ''0'' # CHR ''x'' # d @ '', ''" "\<forall>c\<in>set d. word_char c"
    using cell_text_gba_word by blast
  then have "cell_entry c = CHR ''0'' # CHR ''x'' # d"
    by (simp add: cell_entry_def slice_end_def)
  then show ?thesis using d(2) by blast
qed

lemma word_not_comma: "\<forall>c\<in>set d. word_char c \<Longrightarrow> CHR '','' \<notin> set d"
  by (auto simp: word_char_def)

lemma word_cosmetic: "\<forall>c\<in>set d. word_char c \<Longrightarrow> cosmetic d"
  by (auto simp: word_char_def cosmetic_def)

lemma chunked_cell: "chunked (cell_text_gba c) [cell_entry c] '' ''"
proof -
  obtain d where d: "cell_entry c = CHR ''0'' # CHR ''x'' # d" "\<forall>c\<in>set d. word_char c"
    using cell_entry_word by blast
  have "chunked (CHR ''0'' # CHR ''x'' # d @ CHR '','' # '' '') [CHR ''0'' # CHR ''x'' # d] '' ''"
    by (rule chunked_entry) (simp_all add: word_not_comma d(2) cosmetic_def)
  then show ?thesis
    by (simp add: cell_entry_text d(1))
qed

lemma chunked_append_entries:
  assumes "chunked X es t" and "chunked X2 es2 t2" and "es2 \<noteq> []"
  shows "chunked (X @ X2) (es @ es2) t2"
  using chunked_append [OF assms(1,2)] assms(3) by simp

lemma chunked_append_cosmetic:
  assumes "chunked X es t" and "cosmetic t2"
  shows "chunked (X @ t2) es (t @ t2)"
  using chunked_append [OF assms(1) chunked_cosmetic [OF assms(2)]] by simp

lemma chunked_prepend_cosmetic:
  assumes "cosmetic j" and "chunked X es t" and "es \<noteq> []"
  shows "chunked (j @ X) es t"
  using chunked_append [OF chunked_cosmetic [OF assms(1)] assms(2)] assms(3) by simp

lemma chunked_concat:
  assumes "xs \<noteq> []" and "\<And>x. x \<in> set xs \<Longrightarrow> chunked (f x) (g x) t \<and> g x \<noteq> []"
  shows "chunked (concat (map f xs)) (concat (map g xs)) t"
  using assms
proof (induction xs)
  case Nil
  then show ?case by simp
next
  case (Cons x xs)
  have hd: "chunked (f x) (g x) t" "g x \<noteq> []"
    using Cons.prems(2) by simp_all
  show ?case
  proof (cases "xs = []")
    case True
    then show ?thesis using hd by simp
  next
    case False
    then have tl: "chunked (concat (map f xs)) (concat (map g xs)) t"
      using Cons by simp
    obtain y where "y \<in> set xs" using False by (cases xs) auto
    then have "g y \<noteq> []" "y \<in> set xs" using Cons.prems(2) by simp_all
    then have ne: "concat (map g xs) \<noteq> []" by auto
    have "chunked (f x @ concat (map f xs)) (g x @ concat (map g xs)) t"
      using hd(1) tl ne by (rule chunked_append_entries)
    then show ?thesis by simp
  qed
qed

lemma length_row_entries: "length (row_entries L j k y) = 32"
  by (simp add: row_entries_def)

lemma chunked_row: "chunked (row_text L j k y) (row_entries L j k y) ('' '' @ nl)"
proof -
  let ?f = "\<lambda>x. cell_text_gba (cellAt L (int x + 32 * int k) (int y + 32 * int j))"
  let ?g = "\<lambda>x. [cell_entry (cellAt L (int x + 32 * int k) (int y + 32 * int j))]"
  have cells: "chunked (concat (map ?f [0..<32])) (concat (map ?g [0..<32])) '' ''"
    by (rule chunked_concat) (simp_all add: chunked_cell)
  have es: "concat (map ?g [0..<32]) = row_entries L j k y"
    unfolding row_entries_def by (induction "32::nat") simp_all
  have ne: "row_entries L j k y \<noteq> []"
    using length_row_entries [of L j k y] by auto
  have cells': "chunked (concat (map ?f [0..<32])) (row_entries L j k y) '' ''"
    using cells unfolding es .
  have ind: "cosmetic ''    ''" and cnl: "cosmetic nl"
    by (simp_all add: cosmetic_def nl_def)
  have "chunked (''    '' @ concat (map ?f [0..<32])) (row_entries L j k y) '' ''"
    using ind cells' ne by (rule chunked_prepend_cosmetic)
  then have "chunked ((''    '' @ concat (map ?f [0..<32])) @ nl) (row_entries L j k y) ('' '' @ nl)"
    using cnl by (rule chunked_append_cosmetic)
  then show ?thesis
    by (simp add: row_text_def)
qed

lemma length_block_entries: "length (block_entries L j k) = 1024"
proof -
  have "length (concat (map f [0..<n])) = n * 32" if "\<And>y. length (f y) = 32"
    for f :: "nat \<Rightarrow> string list" and n
    by (induction n) (simp_all add: that)
  from this [of "row_entries L j k" 32] show ?thesis
    by (simp add: block_entries_def length_row_entries)
qed

lemma cosmetic_comment: "cosmetic (''    // Screeblock '' @ num_str b @ nl)"
proof -
  have "\<forall>c\<in>set (num_str b). word_char c"
    using num_str_word [of _ b] by blast
  then have "cosmetic (num_str b)"
    by (rule word_cosmetic)
  then show ?thesis
    by (simp add: cosmetic_def nl_def)
qed

lemma chunked_block: "chunked (block_text L j k b) (block_entries L j k) ('' '' @ nl @ nl)"
proof -
  have rows: "chunked (concat (map (row_text L j k) [0..<32])) (block_entries L j k) ('' '' @ nl)"
    unfolding block_entries_def
  proof (rule chunked_concat)
    show "[0..<32::nat] \<noteq> []" by simp
  next
    fix y :: nat
    have "row_entries L j k y \<noteq> []"
      using length_row_entries [of L j k y] by auto
    then show "chunked (row_text L j k y) (row_entries L j k y) ('' '' @ nl) \<and> row_entries L j k y \<noteq> []"
      using chunked_row by simp
  qed
  have ne: "block_entries L j k \<noteq> []"
    using length_block_entries [of L j k] by auto
  have "chunked ((''    // Screeblock '' @ num_str (int b) @ nl) @ concat (map (row_text L j k) [0..<32]))
          (block_entries L j k) ('' '' @ nl)"
    using cosmetic_comment rows ne by (rule chunked_prepend_cosmetic)
  moreover have "cosmetic nl" by (simp add: cosmetic_def nl_def)
  ultimately have "chunked (((''    // Screeblock '' @ num_str (int b) @ nl)
        @ concat (map (row_text L j k) [0..<32])) @ nl) (block_entries L j k) (('' '' @ nl) @ nl)"
    by (rule chunked_append_cosmetic)
  then show ?thesis
    by (simp add: block_text_def)
qed

lemma chunked_body:
  assumes "0 < blocks_x L" and "0 < blocks_y L"
  shows "chunked (body_text L) (body_entries L) ('' '' @ nl @ nl)"
  unfolding body_text_def body_entries_def
proof (rule chunked_concat)
  show "[0..<blocks_y L] \<noteq> []" using assms(2) by simp
next
  fix j :: nat
  let ?t = "'' '' @ nl @ nl"
  have row: "chunked (concat (map (\<lambda>k. block_text L j k (j * blocks_x L + k)) [0..<blocks_x L]))
      (concat (map (block_entries L j) [0..<blocks_x L])) ?t"
  proof (rule chunked_concat)
    show "[0..<blocks_x L] \<noteq> []" using assms(1) by simp
  next
    fix k :: nat
    have "block_entries L j k \<noteq> []"
      using length_block_entries [of L j k] by auto
    then show "chunked (block_text L j k (j * blocks_x L + k)) (block_entries L j k) ?t
        \<and> block_entries L j k \<noteq> []"
      using chunked_block by simp
  qed
  have "block_entries L j 0 \<noteq> []"
    using length_block_entries [of L j 0] by auto
  then have "concat (map (block_entries L j) [0..<blocks_x L]) \<noteq> []"
    using assms(1) by (auto intro: bexI [of _ 0])
  then show "chunked (concat (map (\<lambda>k. block_text L j k (j * blocks_x L + k)) [0..<blocks_x L]))
      (concat (map (block_entries L j) [0..<blocks_x L])) ?t
      \<and> concat (map (block_entries L j) [0..<blocks_x L]) \<noteq> []"
    using row by simp
qed

lemma entries_sliced:
  assumes "chunked X es t" and "es \<noteq> []" and "length t = 3" and "cosmetic a" and "cosmetic b"
  shows "slice_end 3 X @ t = X" and "entries (a @ slice_end 3 X @ b) = es"
proof -
  obtain Y where Y: "X = Y @ CHR '','' # t" "\<forall>j. cosmetic j \<longrightarrow> entries (j @ Y) = es"
    using assms(1,2) by (auto simp: chunked_def)
  have sl: "slice_end 3 X = Y @ [CHR '','']"
    using Y(1) assms(3) by (simp add: slice_end_def)
  show "slice_end 3 X @ t = X"
    using sl Y(1) by simp
  have "entries (a @ slice_end 3 X @ b) = entries ((a @ Y) @ CHR '','' # b)"
    using sl by simp
  also have "\<dots> = entries (a @ Y) @ entries b"
    by (rule entries_append)
  also have "\<dots> = es"
    using Y(2) assms(4,5) by (simp add: entries_cosmetic)
  finally show "entries (a @ slice_end 3 X @ b) = es" .
qed

lemma concat_uniform:
  fixes f :: "nat \<Rightarrow> 'a list"
  assumes "\<And>i. i < n \<Longrightarrow> length (f i) = m"
  shows "length (concat (map f [0..<n])) = n * m"
    and "i < n \<Longrightarrow> r < m \<Longrightarrow> concat (map f [0..<n]) ! (i * m + r) = f i ! r"
  using assms
proof (induction n)
  case 0
  { case 1 show ?case by simp }
  { case 2 then show ?case by simp }
next
  case (Suc n)
  { case 1
    then show ?case using Suc.IH(1) by simp }
  { case 2
    have len: "length (concat (map f [0..<n])) = n * m"
      using Suc.IH(1) 2(3) by simp
    show ?case
    proof (cases "i < n")
      case True
      then have "Suc i \<le> n" by simp
      then have "Suc i * m \<le> n * m" by (rule mult_le_mono1)
      then have "i * m + r < n * m" using 2(2) by simp
      then show ?thesis
        using len Suc.IH(2) [OF True 2(2)] 2(3) by (simp add: nth_append)
    next
      case False
      then have "i = n" using 2(1) by simp
      then show ?thesis
        using len by (simp add: nth_append)
    qed }
qed

lemma length_body_entries: "length (body_entries L) = blocks_y L * (blocks_x L * 1024)"
proof -
  have "length (concat (map (block_entries L j) [0..<blocks_x L])) = blocks_x L * 1024" for j
    by (rule concat_uniform(1)) (rule length_block_entries)
  then show ?thesis
    unfolding body_entries_def
    using concat_uniform(1) [of "blocks_y L" "\<lambda>j. concat (map (block_entries L j) [0..<blocks_x L])"
        "blocks_x L * 1024"]
    by simp
qed

lemma nth_body_entries:
  assumes "j < blocks_y L" and "k < blocks_x L" and "y < 32" and "x < 32"
  shows "body_entries L ! ((j * blocks_x L + k) * 1024 + y * 32 + x)
           = cell_entry (cellAt L (int x + 32 * int k) (int y + 32 * int j))"
proof -
  let ?R = "\<lambda>j. concat (map (block_entries L j) [0..<blocks_x L])"
  have lenR: "length (?R j) = blocks_x L * 1024" for j
    by (rule concat_uniform(1)) (rule length_block_entries)
  have in_block: "y * 32 + x < 1024"
    using assms(3,4) by simp
  have idx: "(j * blocks_x L + k) * 1024 + y * 32 + x
      = j * (blocks_x L * 1024) + (k * 1024 + (y * 32 + x))"
    by (simp add: algebra_simps)
  have "Suc k \<le> blocks_x L" using assms(2) by simp
  then have "Suc k * 1024 \<le> blocks_x L * 1024" by (rule mult_le_mono1)
  then have in_row: "k * 1024 + (y * 32 + x) < blocks_x L * 1024"
    using in_block by simp
  have "body_entries L ! (j * (blocks_x L * 1024) + (k * 1024 + (y * 32 + x)))
      = ?R j ! (k * 1024 + (y * 32 + x))"
    unfolding body_entries_def
    using concat_uniform(2) [of "blocks_y L" ?R "blocks_x L * 1024" j "k * 1024 + (y * 32 + x)"]
      lenR assms(1) in_row by simp
  also have "\<dots> = block_entries L j k ! (y * 32 + x)"
    using concat_uniform(2) [of "blocks_x L" "block_entries L j" 1024 k "y * 32 + x"]
      length_block_entries assms(2) in_block by simp
  also have "\<dots> = row_entries L j k y ! x"
    unfolding block_entries_def
    using concat_uniform(2) [of 32 "row_entries L j k" 32 y x]
      length_row_entries assms(3,4) by simp
  also have "\<dots> = cell_entry (cellAt L (int x + 32 * int k) (int y + 32 * int j))"
    using assms(4) by (simp add: row_entries_def)
  finally show ?thesis
    unfolding idx .
qed

lemma slice_end_append: "k \<le> length t \<Longrightarrow> slice_end k (s @ t) = s @ slice_end k t"
  by (simp add: slice_end_def)

lemma slice_end_exact: "length t = k \<Longrightarrow> slice_end k (s @ t) = s"
  by (simp add: slice_end_def)

lemma length_array_decl: "3 \<le> length (array_decl n L)"
  by (simp add: array_decl_def)

lemma layer_step_gba_append:
  "layer_step_gba n L (h, s) = (h @ extern_decl n L, s @ layer_source_gba n L)"
proof -
  let ?opened = "array_decl n L @ nl @ ''{'' @ nl"
  let ?src = "\<lambda>s. if isTileLayer L then body_gba L (s @ ?opened) else s @ ?opened"
  have step: "layer_step_gba n L (h, s) = (h @ extern_decl n L, slice_end 3 (?src s) @ nl @ ''};'' @ nl @ nl)"
    for h s
    by (simp add: layer_step_gba_def Let_def array_decl_def extern_decl_def)
  have src: "?src s = s @ ?src []" for s
    by (simp add: body_gba_text)
  have "3 \<le> length (?src [])"
    using length_array_decl [of n L] by (simp add: body_gba_text)
  then have "slice_end 3 (s @ ?src []) = s @ slice_end 3 (?src [])"
    by (rule slice_end_append)
  then have "slice_end 3 (?src s) = s @ slice_end 3 (?src [])"
    using src [of s] by simp
  then show ?thesis
    unfolding layer_source_gba_def step by simp
qed

lemma layer_source_gba_non_tile:
  assumes "\<not> isTileLayer L"
  shows "layer_source_gba n L = array_decl n L @ nl @ ''};'' @ nl @ nl"
proof -
  have "slice_end 3 (array_decl n L @ (nl @ ''{'' @ nl)) = array_decl n L"
    by (rule slice_end_exact) (simp add: nl_def)
  then show ?thesis
    using assms by (simp add: layer_source_gba_def layer_step_gba_def Let_def array_decl_def)
qed

lemma layer_source_gba_tile:
  assumes "isTileLayer L" and "3 \<le> length (body_text L)"
  shows "layer_source_gba n L
           = array_decl n L @ nl @ ''{'' @ nl @ slice_end 3 (body_text L) @ nl @ ''};'' @ nl @ nl"
proof -
  have "slice_end 3 ((array_decl n L @ nl @ ''{'' @ nl) @ body_text L)
      = (array_decl n L @ nl @ ''{'' @ nl) @ slice_end 3 (body_text L)"
    using assms(2) by (rule slice_end_append)
  then show ?thesis
    using assms(1)
    by (simp add: layer_source_gba_def layer_step_gba_def Let_def array_decl_def body_gba_text)
qed

lemma blocks_exact:
  assumes "w mod 32 = 0"
  shows "nat \<lceil>(of_int w :: rat) / 32\<rceil> = nat (w div 32)"
proof -
  have "w = 32 * (w div 32)" using assms by presburger
  then have "(of_int w :: rat) = 32 * of_int (w div 32)"
    by (metis of_int_mult of_int_numeral)
  then have "(of_int w :: rat) / 32 = of_int (w div 32)" by simp
  then show ?thesis by simp
qed

lemma initializer_between:
  assumes "CHR ''{'' \<notin> set pre" and "CHR ''}'' \<notin> set mid"
  shows "initializer (pre @ CHR ''{'' # mid @ CHR ''}'' # post) = mid"
proof -
  have "dropWhile (\<lambda>c. c \<noteq> CHR ''{'') (pre @ CHR ''{'' # mid @ CHR ''}'' # post)
      = dropWhile (\<lambda>c. c \<noteq> CHR ''{'') (CHR ''{'' # mid @ CHR ''}'' # post)"
    using assms(1) by (intro dropWhile_append2) auto
  moreover have "takeWhile (\<lambda>c. c \<noteq> CHR ''}'') (mid @ CHR ''}'' # post) = mid"
    using assms(2) by (auto simp: takeWhile_tail takeWhile_eq_all_conv)
  ultimately show ?thesis
    by (simp add: initializer_def)
qed

lemma sanitize_no_brace: "CHR ''{'' \<notin> set (sanitize s)"
proof
  assume "CHR ''{'' \<in> set (sanitize s)"
  then have "ident_char (CHR ''{'')" by (rule sanitize_chars)
  then show False by (simp add: ident_char_def in_range_def)
qed

lemma num_str_no_brace: "CHR ''{'' \<notin> set (num_str n)" "CHR ''}'' \<notin> set (num_str n)"
  using num_str_word [of _ n] by (auto simp: word_char_def)

lemma array_decl_no_open: "CHR ''{'' \<notin> set (array_decl n L @ nl)"
  by (simp add: array_decl_def nl_def sanitize_no_brace num_str_no_brace)

lemma cell_text_no_close: "CHR ''}'' \<notin> set (cell_text_gba c)"
proof -
  obtain d where "cell_text_gba c = CHR ''0'' # CHR ''x'' # d @ '', ''" "\<forall>c\<in>set d. word_char c"
    using cell_text_gba_word by blast
  then show ?thesis by (auto simp: word_char_def)
qed

lemma row_text_no_close: "CHR ''}'' \<notin> set (row_text L j k y)"
  by (simp add: row_text_def nl_def cell_text_no_close)

lemma block_text_no_close: "CHR ''}'' \<notin> set (block_text L j k b)"
  by (simp add: block_text_def nl_def row_text_no_close num_str_no_brace)

lemma body_text_no_close: "CHR ''}'' \<notin> set (body_text L)"
  by (simp add: body_text_def block_text_no_close)

lemma slice_end_subset: "set (slice_end k s) \<subseteq> set s"
  by (simp add: slice_end_def set_take_subset)

lemma initializer_gba_tile:
  assumes "isTileLayer L" and "3 \<le> length (body_text L)"
  shows "initializer (layer_source_gba n L) = nl @ slice_end 3 (body_text L) @ nl"
proof -
  have close: "CHR ''}'' \<notin> set (nl @ slice_end 3 (body_text L) @ nl)"
    using body_text_no_close [of L] slice_end_subset [of 3 "body_text L"] by (auto simp: nl_def)
  have "layer_source_gba n L
      = (array_decl n L @ nl) @ CHR ''{'' # (nl @ slice_end 3 (body_text L) @ nl) @ CHR ''}'' # ('';'' @ nl @ nl)"
    using assms by (simp add: layer_source_gba_tile)
  then show ?thesis
    using initializer_between [OF array_decl_no_open close] by simp
qed

lemma entries_gba_tile:
  assumes "isTileLayer L" and "0 < blocks_x L" and "0 < blocks_y L"
  shows "entries (initializer (layer_source_gba n L)) = body_entries L"
proof -
  have ch: "chunked (body_text L) (body_entries L) ('' '' @ nl @ nl)"
    using assms(2,3) by (rule chunked_body)
  have "0 < blocks_y L * (blocks_x L * 1024)" using assms(2,3) by simp
  then have ne: "body_entries L \<noteq> []"
    using length_body_entries [of L] by auto
  have len3: "length ('' '' @ nl @ nl) = 3" by (simp add: nl_def)
  have cnl: "cosmetic nl" by (simp add: cosmetic_def nl_def)
  have "slice_end 3 (body_text L) @ ('' '' @ nl @ nl) = body_text L"
    using ch ne len3 cnl cnl by (rule entries_sliced(1))
  then have "length (body_text L) = length (slice_end 3 (body_text L)) + 3"
    using len3 by (metis length_append)
  then have "3 \<le> length (body_text L)" by simp
  then have "initializer (layer_source_gba n L) = nl @ slice_end 3 (body_text L) @ nl"
    using assms(1) by (simp add: initializer_gba_tile)
  moreover have "entries (nl @ slice_end 3 (body_text L) @ nl) = body_entries L"
    using ch ne len3 cnl cnl by (rule entries_sliced(2))
  ultimately show ?thesis by simp
qed


lemma fold_layer_step_gba:
  "fold (layer_step_gba n) ls (h, s)
     = (h @ concat (map (extern_decl n) ls), s @ concat (map (layer_source_gba n) ls))"
  by (induction ls arbitrary: h s) (simp_all add: layer_step_gba_append)

lemma export_gba_text:
  "export_gba base m =
     (header_start_gba base m @ concat (map (extern_decl (width m * height m)) (layers m)) @ header_end,
      slice_end 1 (source_start base @ concat (map (layer_source_gba (width m * height m)) (layers m))))"
proof -
  have "for_loop 0 (of_nat (length (layers m)))
          (\<lambda>i. layer_step_gba (width m * height m) (layers m ! i)) st
        = fold (layer_step_gba (width m * height m)) (layers m) st" for st
    by (simp add: for_loop_fold fold_nth_upt)
  then show ?thesis
    by (simp add: export_gba_def Let_def fold_layer_step_gba)
qed

lemma blocks_x_exact: "layer_width L mod 32 = 0 \<Longrightarrow> blocks_x L = nat (layer_width L div 32)"
  by (simp add: blocks_x_def blocks_exact)

lemma blocks_y_exact: "layer_height L mod 32 = 0 \<Longrightarrow> blocks_y L = nat (layer_height L div 32)"
  by (simp add: blocks_y_def blocks_exact)

lemma blocks_area:
  assumes "0 < w" "w mod 32 = 0" "0 < h" "h mod 32 = 0"
  shows "nat (h div 32) * (nat (w div 32) * 1024) = nat (w * h)"
proof -
  have w: "w = 32 * (w div 32)" and h: "h = 32 * (h div 32)"
    using assms by presburger+
  have nn: "0 \<le> w div 32" "0 \<le> h div 32" using assms by simp_all
  have "int (nat (h div 32) * (nat (w div 32) * 1024)) = (h div 32) * ((w div 32) * 1024)"
    using nn by simp
  also have "\<dots> = (32 * (w div 32)) * (32 * (h div 32))" by simp
  also have "\<dots> = w * h" using w h by simp
  finally show ?thesis by linarith
qed

lemma body_text_sliced:
  assumes "0 < blocks_x L" and "0 < blocks_y L"
  shows "3 \<le> length (body_text L)"
    and "entries (nl @ slice_end 3 (body_text L) @ nl) = body_entries L"
proof -
  have ch: "chunked (body_text L) (body_entries L) ('' '' @ nl @ nl)"
    using assms by (rule chunked_body)
  have "0 < blocks_y L * (blocks_x L * 1024)" using assms by simp
  then have ne: "body_entries L \<noteq> []"
    using length_body_entries [of L] by auto
  have len3: "length ('' '' @ nl @ nl) = 3" by (simp add: nl_def)
  have cnl: "cosmetic nl" by (simp add: cosmetic_def nl_def)
  have "slice_end 3 (body_text L) @ ('' '' @ nl @ nl) = body_text L"
    using ch ne len3 cnl cnl by (rule entries_sliced(1))
  then have "length (body_text L) = length (slice_end 3 (body_text L)) + 3"
    using len3 by (metis length_append)
  then show "3 \<le> length (body_text L)" by simp
  show "entries (nl @ slice_end 3 (body_text L) @ nl) = body_entries L"
    using ch ne len3 cnl cnl by (rule entries_sliced(2))
qed

lemma source_start_no_open: "CHR ''{'' \<notin> set base \<Longrightarrow> CHR ''{'' \<notin> set (source_start base)"
  by (simp add: source_start_def nl_def dquote_def)

lemma initializer_single_tile_layer:
  assumes "CHR ''{'' \<notin> set base" and "isTileLayer L" and "3 \<le> length (body_text L)"
  shows "initializer (slice_end 1 (source_start base @ layer_source_gba n L))
           = nl @ slice_end 3 (body_text L) @ nl"
proof -
  let ?mid = "nl @ slice_end 3 (body_text L) @ nl"
  have close: "CHR ''}'' \<notin> set ?mid"
    using body_text_no_close [of L] slice_end_subset [of 3 "body_text L"] by (auto simp: nl_def)
  have "CHR ''{'' \<notin> set (source_start base @ array_decl n L @ nl)"
    using source_start_no_open [OF assms(1)] array_decl_no_open [of n L] by simp
  then have "initializer ((source_start base @ array_decl n L @ nl) @ CHR ''{'' # ?mid @ CHR ''}'' # ('';'' @ nl))
      = ?mid"
    using close by (rule initializer_between)
  moreover have "slice_end 1 (((source_start base @ array_decl n L @ nl) @ CHR ''{'' # ?mid
        @ CHR ''}'' # ('';'' @ nl)) @ nl)
      = (source_start base @ array_decl n L @ nl) @ CHR ''{'' # ?mid @ CHR ''}'' # ('';'' @ nl)"
    by (rule slice_end_exact) (simp add: nl_def)
  moreover have "source_start base @ layer_source_gba n L
      = ((source_start base @ array_decl n L @ nl) @ CHR ''{'' # ?mid @ CHR ''}'' # ('';'' @ nl)) @ nl"
    using assms(2,3) by (simp add: layer_source_gba_tile)
  ultimately show ?thesis by simp
qed

lemma to_int32_signed: "to_int32 n = signed_take_bit 31 n"
  by (simp add: to_int32_def signed_take_bit_eq_take_bit_shift take_bit_eq_mod)

lemma js_or_in_range:
  fixes a b :: int
  assumes "- (2 ^ 31) \<le> a" "a < 2 ^ 31" "- (2 ^ 31) \<le> b" "b < 2 ^ 31"
  shows "js_or a b = a OR b"
  using assms by (simp add: js_or_def to_int32_signed signed_take_bit_int_eq_self)

lemma signed_take_bit_or_int:
  fixes a b :: int
  shows "signed_take_bit m (a OR b) = signed_take_bit m a OR signed_take_bit m b"
  by (rule bit_eqI) (auto simp: bit_simps)

lemma or_in_range:
  fixes a b :: int
  assumes "- (2 ^ 31) \<le> a" "a < 2 ^ 31" "- (2 ^ 31) \<le> b" "b < 2 ^ 31"
  shows "- (2 ^ 31) \<le> a OR b \<and> a OR b < 2 ^ 31"
proof -
  have "signed_take_bit 31 (a OR b) = a OR b"
    using assms by (simp add: signed_take_bit_or_int signed_take_bit_int_eq_self)
  then show ?thesis
    using signed_take_bit_int_greater_eq_minus_exp [of 31 "a OR b"]
      signed_take_bit_int_less_exp [of 31 "a OR b"] by simp
qed

lemma cell_text_gba_value:
  assumes "tileId c = TileNum n" and "n \<noteq> - 1" and "- (2 ^ 31) \<le> n" and "n < 2 ^ 31"
  shows "cell_text_gba c
           = decimalToHex (flip_value n (flippedHorizontally c) (flippedVertically c)) 4 @ '', ''"
proof -
  have h: "js_or n (push_bit 10 1) = n OR 2 ^ 10"
    using assms(3,4) by (simp add: js_or_in_range)
  have r: "- (2 ^ 31) \<le> n OR 2 ^ 10 \<and> n OR 2 ^ 10 < 2 ^ 31"
    using assms(3,4) by (intro or_in_range) simp_all
  have v: "js_or m (push_bit 11 1) = m OR 2 ^ 11" if "- (2 ^ 31) \<le> m" "m < 2 ^ 31" for m
    using that by (simp add: js_or_in_range)
  show ?thesis
    using assms(1,2) h r v [of n] v [of "n OR 2 ^ 10"] assms(3,4)
    by (simp add: cell_text_gba_def flip_value_def Let_def or.assoc)
qed

lemma flip_value_bits:
  assumes "0 \<le> n" and "n < 1024"
  shows "bit (flip_value n fh fv) 10 = fh" and "bit (flip_value n fh fv) 11 = fv"
    and "take_bit 10 (flip_value n fh fv) = n"
proof -
  have tb: "take_bit 10 n = n"
    using assms by (simp add: take_bit_int_eq_self)
  have "bit (take_bit 10 n) k = False" if "10 \<le> k" for k
    using that by (simp add: bit_take_bit_iff)
  then have nb: "\<not> bit n 10" "\<not> bit n 11"
    unfolding tb by simp_all
  have p: "bit ((2::int) ^ 10) 10" "\<not> bit ((2::int) ^ 10) 11" "\<not> bit ((2::int) ^ 11) 10"
    "bit ((2::int) ^ 11) 11"
    by (simp_all add: bit_exp_iff)
  show "bit (flip_value n fh fv) 10 = fh" "bit (flip_value n fh fv) 11 = fv"
    using nb p by (simp_all add: flip_value_def bit_or_iff)
  have "take_bit 10 ((2::int) ^ 10) = 0" "take_bit 10 ((2::int) ^ 11) = 0"
    by (simp_all add: take_bit_eq_mod)
  then show "take_bit 10 (flip_value n fh fv) = n"
    using tb by (simp add: flip_value_def)
qed

lemma js_rem_32: "js_rem a 32 = 0 \<longleftrightarrow> a mod 32 = 0"
proof -
  have "js_rem a 32 = 0 \<longleftrightarrow> a = 0 \<or> \<bar>a\<bar> mod 32 = 0"
    by (auto simp: js_rem_def sgn_if)
  also have "\<dots> \<longleftrightarrow> a mod 32 = 0"
    by presburger
  finally show ?thesis .
qed

lemma row_affine_text: "row_affine m L y src = src @ row_text_affine m L y"
  by (simp add: row_affine_def row_text_affine_def for_loop_fold fold_append_text)

lemma rows_affine_text:
  "for_loop 0 (of_int (height m)) (row_affine m L) src = src @ body_text_affine m L"
proof -
  have "row_affine m L = (\<lambda>y s. s @ row_text_affine m L y)"
    by (simp add: row_affine_text fun_eq_iff)
  then show ?thesis
    by (simp add: for_loop_fold fold_append_text body_text_affine_def)
qed

lemma layer_source_affine_non_tile:
  assumes "\<not> isTileLayer L"
  shows "layer_source_affine m n L = array_decl n L @ nl @ ''{'' @ nl"
  using assms by (simp add: layer_source_affine_def layer_step_affine_def Let_def array_decl_def)

lemma layer_source_affine_tile:
  assumes "isTileLayer L"
  shows "layer_source_affine m n L
           = slice_end 3 (array_decl n L @ nl @ ''{'' @ nl @ body_text_affine m L)
             @ nl @ ''};'' @ nl @ nl"
  using assms
  by (simp add: layer_source_affine_def layer_step_affine_def Let_def array_decl_def rows_affine_text)

lemma layer_step_affine_append:
  "layer_step_affine m n L (h, s) = (h @ extern_decl n L, s @ layer_source_affine m n L)"
proof (cases "isTileLayer L")
  case True
  let ?T = "array_decl n L @ nl @ ''{'' @ nl @ body_text_affine m L"
  have "3 \<le> length ?T"
    using length_array_decl [of n L] by simp
  then have "slice_end 3 (s @ ?T) = s @ slice_end 3 ?T"
    by (rule slice_end_append)
  moreover have "layer_step_affine m n L (h, s)
      = (h @ extern_decl n L, slice_end 3 (s @ ?T) @ nl @ ''};'' @ nl @ nl)"
    using True
    by (simp add: layer_step_affine_def Let_def array_decl_def extern_decl_def rows_affine_text)
  ultimately show ?thesis
    using True by (simp add: layer_source_affine_tile)
next
  case False
  then show ?thesis
    by (simp add: layer_source_affine_non_tile)
      (simp add: layer_step_affine_def Let_def array_decl_def extern_decl_def)
qed

lemma fold_layer_step_affine:
  "fold (layer_step_affine m n) ls (h, s)
     = (h @ concat (map (extern_decl n) ls), s @ concat (map (layer_source_affine m n) ls))"
  by (induction ls arbitrary: h s) (simp_all add: layer_step_affine_append)

lemma export_affine_text:
  "export_affine base m =
     (header_start_affine base m @ concat (map (extern_decl (width m * height m)) (layers m))
        @ header_end,
      slice_end 1 (source_start base
        @ concat (map (layer_source_affine m (width m * height m)) (layers m))))"
proof -
  have "for_loop 0 (of_nat (length (layers m)))
          (\<lambda>i. layer_step_affine m (width m * height m) (layers m ! i)) st
        = fold (layer_step_affine m (width m * height m)) (layers m) st" for st
    by (simp add: for_loop_fold fold_nth_upt)
  then show ?thesis
    by (simp add: export_affine_def Let_def fold_layer_step_affine)
qed

lemma layer_step_affine_non_tile:
  assumes "\<not> isTileLayer L"
  shows "layer_step_affine m n L (h, s) = (h @ extern_decl n L, s @ array_decl n L @ nl @ ''{'' @ nl)"
  using assms by (simp add: layer_step_affine_def Let_def array_decl_def extern_decl_def)

lemma hex_value_snoc:
  "hex_value acc (cs @ [c]) =
     (case hex_value acc cs of None \<Rightarrow> None
      | Some a \<Rightarrow> (case hex_digit_value c of None \<Rightarrow> None | Some d \<Rightarrow> Some (16 * a + d)))"
  by (induction cs arbitrary: acc) (auto split: option.splits)

lemma hex_digit_round: "d < 16 \<Longrightarrow> hex_digit_value (upper_char (digit_char d)) = Some d"
proof -
  have "list_all (\<lambda>d. hex_digit_value (upper_char (digit_char d)) = Some d)
      [0, 1, 2, 3, 4, 5, 6, 7, 8, 9, 10, 11, 12, 13, 14, 15]"
    by (simp add: hex_digit_value_def upper_char_def in_range_def digit_char_def digit_chars_def
        char_of_eq_iff)
  moreover have "d < 16 \<Longrightarrow> d \<in> set [0, 1, 2, 3, 4, 5, 6, 7, 8, 9, 10, 11, 12, 13, 14, 15]"
    by (simp only: set_simps insert_iff empty_iff) arith
  ultimately show "d < 16 \<Longrightarrow> hex_digit_value (upper_char (digit_char d)) = Some d"
    unfolding list_all_iff by blast
qed

lemma hex_value_digits: "hex_value 0 (toUpperCase (digits_radix 16 n)) = Some n"
proof (induction "16::nat" n rule: digits_radix.induct)
  case (1 n)
  show ?case
  proof (cases "n < 16")
    case True
    then have "digits_radix 16 n = [digit_char n]"
      by (subst digits_radix.simps) simp
    then show ?thesis
      using True by (simp add: toUpperCase_def hex_digit_round)
  next
    case False
    then have d: "digits_radix 16 n = digits_radix 16 (n div 16) @ [digit_char (n mod 16)]"
      by (subst digits_radix.simps) simp
    have ih: "hex_value 0 (toUpperCase (digits_radix 16 (n div 16))) = Some (n div 16)"
      using "1.hyps" False by simp
    have "hex_value 0 (toUpperCase (digits_radix 16 (n div 16)) @ [upper_char (digit_char (n mod 16))])
        = Some (16 * (n div 16) + n mod 16)"
      unfolding hex_value_snoc ih by (simp add: hex_digit_round)
    then show ?thesis
      unfolding d by (simp add: toUpperCase_def)
  qed
qed

lemma hex_value_zeros: "hex_value 0 (replicate k (CHR ''0'') @ ds) = hex_value 0 ds"
proof (induction k)
  case 0
  show ?case by simp
next
  case (Suc k)
  have "hex_digit_value (CHR ''0'') = Some 0"
    by (simp add: hex_digit_value_def in_range_def)
  then show ?case using Suc by simp
qed

lemma digits_radix_not_Nil: "digits_radix r n \<noteq> []"
  by (subst digits_radix.simps) simp

lemma decode_decimalToHex: "decode_entry (decimalToHex (int n) p) = Some n"
proof -
  have "decimalToHex (int n) p
      = CHR ''0'' # CHR ''x'' # (replicate (p - length (toUpperCase (digits_radix 16 n))) (CHR ''0'')
          @ toUpperCase (digits_radix 16 n))"
    by (simp add: decimalToHex_def padStart_zero toString_def)
  moreover have "toUpperCase (digits_radix 16 n) \<noteq> []"
    using digits_radix_not_Nil [of 16 n] by (simp add: toUpperCase_def)
  ultimately show ?thesis
    by (simp add: decode_entry_def hex_value_zeros hex_value_digits)
qed

lemma cell_entry_plain:
  assumes "tileId c = TileNum (int v)" "\<not> flippedHorizontally c" "\<not> flippedVertically c"
  shows "cell_entry c = decimalToHex (int v) 4"
  using assms by (simp add: cell_entry_def cell_text_gba_def slice_end_def)

lemma decode_body_entries_seq:
  assumes "layer_width L = 32" and "layer_height L = 32"
    and cells: "\<forall>x y. 0 \<le> x \<and> x < 32 \<and> 0 \<le> y \<and> y < 32 \<longrightarrow>
      cellAt L x y = \<lparr>tileId = TileNum (32 * y + x), flippedHorizontally = False,
                       flippedVertically = False\<rparr>"
  shows "map decode_entry (body_entries L) = map Some [0..<1024]"
proof (rule nth_equalityI)
  have bx: "blocks_x L = 1" and bh: "blocks_y L = 1"
    using assms(1,2) by (simp_all add: blocks_x_exact blocks_y_exact)
  show "length (map decode_entry (body_entries L)) = length (map Some [0..<1024])"
    by (simp add: length_body_entries bx bh)
  fix i assume "i < length (map decode_entry (body_entries L))"
  then have i: "i < 1024"
    by (simp add: length_body_entries bx bh)
  define y where "y = i div 32"
  define x where "x = i mod 32"
  have xy: "x < 32" "y < 32" "i = y * 32 + x"
    using i by (simp_all add: x_def y_def) 
  have "body_entries L ! ((0 * blocks_x L + 0) * 1024 + y * 32 + x)
      = cell_entry (cellAt L (int x + 32 * int 0) (int y + 32 * int 0))"
    using xy(1,2) bx bh by (intro nth_body_entries) simp_all
  then have "body_entries L ! i = cell_entry (cellAt L (int x) (int y))"
    using xy(3) by simp
  moreover have "cellAt L (int x) (int y)
      = \<lparr>tileId = TileNum (32 * int y + int x), flippedHorizontally = False, flippedVertically = False\<rparr>"
    using cells xy(1,2) by simp
  moreover have "32 * int y + int x = int i"
    using xy(3) by simp
  ultimately have "body_entries L ! i = decimalToHex (int i) 4"
    by (simp add: cell_entry_plain)
  then have "decode_entry (body_entries L ! i) = Some i"
    by (simp add: decode_decimalToHex)
  then show "map decode_entry (body_entries L) ! i = map Some [0..<1024] ! i"
    using i by (simp add: length_body_entries bx bh)
qed

lemma num_str_1024: "num_str 1024 = ''1024''"
  by code_simp

lemma layer_source_gba_text:
  "layer_source_gba n L
     = slice_end 3 (array_decl n L @ nl @ ''{'' @ nl @ (if isTileLayer L then body_text L else []))
       @ nl @ ''};'' @ nl @ nl"
  by (simp add: layer_source_gba_def layer_step_gba_def Let_def array_decl_def body_gba_text)

lemma same_layer_row_text:
  assumes "same_layer L1 L2"
  shows "row_text L1 j k y = row_text L2 j k y"
proof -
  have "cellAt L1 (int x + 32 * int k) (int y + 32 * int j)
      = cellAt L2 (int x + 32 * int k) (int y + 32 * int j)" for x
    using assms by (simp add: same_layer_def)
  then show ?thesis
    by (simp add: row_text_def)
qed

lemma same_layer_body_text:
  assumes "same_layer L1 L2"
  shows "body_text L1 = body_text L2"
proof -
  have "blocks_x L1 = blocks_x L2" "blocks_y L1 = blocks_y L2"
    using assms by (simp_all add: same_layer_def blocks_x_def blocks_y_def)
  moreover have "row_text L1 j k = row_text L2 j k" for j k
    using same_layer_row_text [OF assms] by (simp add: fun_eq_iff)
  then have "block_text L1 j k b = block_text L2 j k b" for j k b
    by (simp add: block_text_def)
  ultimately show ?thesis
    by (simp add: body_text_def)
qed

lemma same_layer_decl:
  assumes "same_layer L1 L2"
  shows "array_decl n L1 = array_decl n L2" and "extern_decl n L1 = extern_decl n L2"
  using assms by (simp_all add: same_layer_def array_decl_def extern_decl_def)

lemma same_layer_source_gba:
  assumes "same_layer L1 L2"
  shows "layer_source_gba n L1 = layer_source_gba n L2"
proof -
  have "isTileLayer L1 = isTileLayer L2"
    using assms by (simp add: same_layer_def)
  then show ?thesis
    unfolding layer_source_gba_text
    using same_layer_body_text [OF assms] same_layer_decl(1) [OF assms] by simp
qed

lemma same_layer_source_affine:
  assumes "same_layer L1 L2" and "width m1 = width m2" and "height m1 = height m2"
  shows "layer_source_affine m1 n L1 = layer_source_affine m2 n L2"
proof -
  have tile: "isTileLayer L1 = isTileLayer L2"
    using assms(1) by (simp add: same_layer_def)
  have "cellAt L1 (int x) (int y) = cellAt L2 (int x) (int y)" for x y
    using assms(1) by (simp add: same_layer_def)
  then have "row_text_affine m1 L1 y = row_text_affine m2 L2 y" for y
    using assms(2) by (simp add: row_text_affine_def)
  then have "row_text_affine m1 L1 = row_text_affine m2 L2"
    by (simp add: fun_eq_iff)
  then have body: "body_text_affine m1 L1 = body_text_affine m2 L2"
    using assms(3) by (simp add: body_text_affine_def)
  show ?thesis
  proof (cases "isTileLayer L1")
    case True
    then show ?thesis
      using tile body same_layer_decl(1) [OF assms(1)] by (simp add: layer_source_affine_tile)
  next
    case False
    then show ?thesis
      using tile same_layer_decl(1) [OF assms(1)] by (simp add: layer_source_affine_non_tile)
  qed
qed

lemma list_all2_map_eq:
  assumes "list_all2 R xs ys" and "\<And>x y. R x y \<Longrightarrow> f x = g y"
  shows "map f xs = map g ys"
  using assms by (induction rule: list_all2_induct) simp_all

text \<open>
  What the regular exporter emits for a tile layer whose own width \<open>LW\<close> and height \<open>LH\<close>
  are positive multiples of 32: \<open>LW * LH\<close> entries, screenblock by screenblock over a grid
  of \<open>LW / 32\<close> by \<open>LH / 32\<close> blocks, row by row within a block. For a layer that has the
  width and height of the map this is the array of \<open>tilemapLength\<close> entries that the
  declaration announces.
\<close>

lemma layer_entries_gba:
  assumes "isTileLayer L"
    and "0 < layer_width L" and "layer_width L mod 32 = 0"
    and "0 < layer_height L" and "layer_height L mod 32 = 0"
  shows "snd (layer_step_gba n L (h, s)) = s @ layer_source_gba n L
    \<and> length (entries (initializer (layer_source_gba n L)))
          = nat (layer_width L * layer_height L)
    \<and> (\<forall>j k y x. j < nat (layer_height L div 32) \<longrightarrow> k < nat (layer_width L div 32)
           \<longrightarrow> y < 32 \<longrightarrow> x < 32 \<longrightarrow>
         entries (initializer (layer_source_gba n L))
             ! ((j * nat (layer_width L div 32) + k) * 1024 + y * 32 + x)
           = cell_entry (cellAt L (int x + 32 * int k) (int y + 32 * int j)))"
proof -
  have bx: "blocks_x L = nat (layer_width L div 32)" and bh: "blocks_y L = nat (layer_height L div 32)"
    using assms(3,5) by (simp_all add: blocks_x_exact blocks_y_exact)
  have "0 < layer_width L div 32" "0 < layer_height L div 32"
    using assms(2-5) by presburger+
  then have pos: "0 < blocks_x L" "0 < blocks_y L"
    using bx bh by simp_all
  have ents: "entries (initializer (layer_source_gba n L)) = body_entries L"
    using assms(1) pos by (rule entries_gba_tile)
  have "length (body_entries L) = nat (layer_width L * layer_height L)"
    unfolding length_body_entries bx bh using assms(2-5) by (rule blocks_area)
  moreover have "body_entries L ! ((j * nat (layer_width L div 32) + k) * 1024 + y * 32 + x)
      = cell_entry (cellAt L (int x + 32 * int k) (int y + 32 * int j))"
    if "j < nat (layer_height L div 32)" "k < nat (layer_width L div 32)" "y < 32" "x < 32" for j k y x
    using nth_body_entries [of j L k y x] that bx bh by simp
  ultimately show ?thesis
    unfolding ents by (simp add: layer_step_gba_append)
qed

text \<open>Two instances: the 32 by 32 layer, and the second screenblock of the layer that is 64
  wide, where the cell at \<open>(34, 1)\<close> stands at index \<open>1024 + 32 + 2\<close>.\<close>

lemma layer_entries_gba_one_block:
  "length (entries (initializer (layer_source_gba 1024 seq_layer))) = 1024
   \<and> entries (initializer (layer_source_gba 1024 seq_layer)) ! 34 = ''0x0022''"
proof -
  have hyps: "isTileLayer seq_layer" "0 < layer_width seq_layer" "layer_width seq_layer mod 32 = 0"
    "0 < layer_height seq_layer" "layer_height seq_layer mod 32 = 0"
    by (simp_all add: seq_layer_def)
  have cell: "cell_entry (cellAt seq_layer 2 1) = ''0x0022''"
    by code_simp
  have dims: "nat (layer_width seq_layer div 32) = 1" "nat (layer_height seq_layer div 32) = 1"
    "nat (layer_width seq_layer * layer_height seq_layer) = 1024"
    by (simp_all add: seq_layer_def)
  from layer_entries_gba [OF hyps, of 1024 "[]" "[]"]
  have len: "length (entries (initializer (layer_source_gba 1024 seq_layer))) = 1024"
    and nth: "\<And>j k y x. j < 1 \<Longrightarrow> k < 1 \<Longrightarrow> y < 32 \<Longrightarrow> x < 32 \<Longrightarrow>
      entries (initializer (layer_source_gba 1024 seq_layer)) ! ((j * 1 + k) * 1024 + y * 32 + x)
        = cell_entry (cellAt seq_layer (int x + 32 * int k) (int y + 32 * int j))"
    unfolding dims by blast+
  from nth [of 0 0 1 2] cell
  have "entries (initializer (layer_source_gba 1024 seq_layer)) ! 34 = ''0x0022''"
    by simp
  then show ?thesis
    using len by simp
qed

lemma layer_entries_gba_second_block:
  "entries (initializer (layer_source_gba 1024 wide_layer)) ! 1058 = ''0x0042''"
proof -
  have hyps: "isTileLayer wide_layer" "0 < layer_width wide_layer" "layer_width wide_layer mod 32 = 0"
    "0 < layer_height wide_layer" "layer_height wide_layer mod 32 = 0"
    by (simp_all add: wide_layer_def seq_layer_def)
  have cell: "cell_entry (cellAt wide_layer 34 1) = ''0x0042''"
    by code_simp
  have dims: "nat (layer_width wide_layer div 32) = 2" "nat (layer_height wide_layer div 32) = 1"
    by (simp_all add: wide_layer_def seq_layer_def)
  from layer_entries_gba [OF hyps, of 1024 "[]" "[]"]
  have nth: "\<And>j k y x. j < 1 \<Longrightarrow> k < 2 \<Longrightarrow> y < 32 \<Longrightarrow> x < 32 \<Longrightarrow>
      entries (initializer (layer_source_gba 1024 wide_layer)) ! ((j * 2 + k) * 1024 + y * 32 + x)
        = cell_entry (cellAt wide_layer (int x + 32 * int k) (int y + 32 * int j))"
    unfolding dims by blast
  from nth [of 0 1 1 2] cell show ?thesis
    by simp
qed

section \<open>The claims\<close>

text \<open>
  C9. The identifier sanitizer is a total function that keeps every character of
  \<open>[A-Za-z0-9_-]\<close>, replaces every other character by an underscore (position by
  position, so the length is kept), maps \<open>My Layer #1\<close> to \<open>My_Layer__1\<close>, and is
  idempotent.
\<close>

theorem sanitize_spec:
  "length (sanitize s) = length s
   \<and> (\<forall>i. i < length s \<longrightarrow>
        sanitize s ! i
          = (if s ! i \<in> set (''abcdefghijklmnopqrstuvwxyz'' @ ''ABCDEFGHIJKLMNOPQRSTUVWXYZ''
                                @ ''0123456789'' @ ''-_'')
             then s ! i else CHR ''_''))
   \<and> sanitize ''My Layer #1'' = ''My_Layer__1''
   \<and> sanitize (sanitize s) = sanitize s"
proof -
  have idem: "sanitize (sanitize s) = sanitize s"
    by (induction s) (simp_all add: sanitize_def ident_char_underscore)
  have ex: "sanitize ''My Layer #1'' = ''My_Layer__1''"
    by (simp add: sanitize_def ident_char_def in_range_def)
  have "sanitize s ! i
      = (if s ! i \<in> set (''abcdefghijklmnopqrstuvwxyz'' @ ''ABCDEFGHIJKLMNOPQRSTUVWXYZ''
                            @ ''0123456789'' @ ''-_'')
         then s ! i else CHR ''_'')" if "i < length s" for i
    using that unfolding ident_char_iff [symmetric] by (simp add: sanitize_def)
  then show ?thesis
    using idem ex by (simp add: sanitize_def)
qed

theorem sanitize_spec_witness:
  "(2::nat) < length ''a b''
   \<and> sanitize ''a b'' ! 1 = CHR ''_'' \<and> sanitize ''a b'' ! 2 = CHR ''b''
   \<and> sanitize (sanitize ''a b'') = sanitize ''a b''"
proof -
  have l: "(1::nat) < length ''a b''" "(2::nat) < length ''a b''"
    by simp_all
  from sanitize_spec [of "''a b''"]
  have nth: "\<And>i. i < length ''a b'' \<Longrightarrow> sanitize ''a b'' ! i
      = (if ''a b'' ! i \<in> set (''abcdefghijklmnopqrstuvwxyz'' @ ''ABCDEFGHIJKLMNOPQRSTUVWXYZ''
                            @ ''0123456789'' @ ''-_'')
         then ''a b'' ! i else CHR ''_'')"
    and idem: "sanitize (sanitize ''a b'') = sanitize ''a b''"
    by blast+
  from nth [OF l(1)] nth [OF l(2)] idem show ?thesis
    by simp
qed

text \<open>
  C1. In regular mode the array of a tile layer is declared with \<open>tilemapLength\<close>, the
  width of the map times its height, but the screenblock loops are bounded by the width and
  height of the layer. For the 32 by 32 map whose one tile layer is 64 wide and 32 high the
  header defines the length as 1024 and declares an array of 1024 entries, the source
  defines the array with 1024 entries, and 2048 entries stand between its braces, not
  \<open>32 * 32\<close>.
\<close>

theorem gba_wide_layer_overrun:
  "width wide_map = 32 \<and> height wide_map = 32
   \<and> layers wide_map = [wide_layer] \<and> isTileLayer wide_layer
   \<and> num_str (width wide_map * height wide_map) = ''1024''
   \<and> fst (export_gba ''m'' wide_map)
       = header_start_gba ''m'' wide_map
         @ ''extern const unsigned short My_Layer__1[1024];'' @ nl @ header_end
   \<and> prefix (source_start ''m''
               @ ''const unsigned short My_Layer__1[1024] __attribute__((aligned(4))) ='' @ nl
               @ ''{'' @ nl)
        (snd (export_gba ''m'' wide_map))
   \<and> length (entries (initializer (snd (export_gba ''m'' wide_map)))) = 2048"
proof -
  have bx: "blocks_x wide_layer = 2" and bh: "blocks_y wide_layer = 1"
    by (simp_all add: blocks_x_exact blocks_y_exact wide_layer_def seq_layer_def)
  have tile: "isTileLayer wide_layer"
    by (simp add: wide_layer_def seq_layer_def)
  have long: "3 \<le> length (body_text wide_layer)"
    and ents: "entries (nl @ slice_end 3 (body_text wide_layer) @ nl) = body_entries wide_layer"
    using body_text_sliced [of wide_layer] bx bh by simp_all
  have decl: "array_decl 1024 wide_layer
      = ''const unsigned short My_Layer__1[1024] __attribute__((aligned(4))) =''"
    by code_simp
  have ext: "extern_decl 1024 wide_layer = ''extern const unsigned short My_Layer__1[1024];'' @ nl"
    by code_simp
  have out: "export_gba ''m'' wide_map
      = (header_start_gba ''m'' wide_map @ extern_decl 1024 wide_layer @ header_end,
         slice_end 1 (source_start ''m'' @ layer_source_gba 1024 wide_layer))"
    by (simp add: export_gba_text wide_map_def)
  have hdr: "fst (export_gba ''m'' wide_map)
      = header_start_gba ''m'' wide_map
        @ ''extern const unsigned short My_Layer__1[1024];'' @ nl @ header_end"
    unfolding out fst_conv ext by simp
  let ?opened = "source_start ''m'' @ array_decl 1024 wide_layer @ nl @ ''{'' @ nl"
  let ?rest = "slice_end 3 (body_text wide_layer) @ nl @ ''};'' @ nl"
  have "slice_end 1 ((?opened @ ?rest) @ nl) = ?opened @ ?rest"
    by (rule slice_end_exact) (simp add: nl_def)
  moreover have "source_start ''m'' @ layer_source_gba 1024 wide_layer = (?opened @ ?rest) @ nl"
    using tile long by (simp add: layer_source_gba_tile)
  ultimately have "snd (export_gba ''m'' wide_map) = ?opened @ ?rest"
    unfolding out snd_conv by simp
  then have pre: "prefix ?opened (snd (export_gba ''m'' wide_map))"
    by (simp only: prefixI)
  have "entries (initializer (snd (export_gba ''m'' wide_map))) = body_entries wide_layer"
    unfolding out snd_conv
    using initializer_single_tile_layer [of "''m''" wide_layer 1024] tile long ents by simp
  then have len: "length (entries (initializer (snd (export_gba ''m'' wide_map)))) = 2048"
    by (simp add: length_body_entries bx bh)
  have n: "num_str (width wide_map * height wide_map) = ''1024''"
    by (simp add: wide_map_def num_str_1024)
  show ?thesis
    using tile hdr pre len n unfolding decl by (simp add: wide_map_def)
qed

text \<open>
  C2. In regular mode a cell whose tileId is a number other than -1 (a 32-bit integer, as
  the host supplies it) is emitted as the hexadecimal text of the tileId with bit 10 or-ed
  in when the cell is flipped horizontally and bit 11 when it is flipped vertically. For a
  tileId that fits the low 10 bits, bit 10 of the value is set iff flippedHorizontally,
  bit 11 iff flippedVertically, and the low 10 bits are the tileId. TileId 5 flipped
  horizontally gives \<open>0x0405\<close>, flipped both ways \<open>0x0C05\<close>.
\<close>

theorem gba_flip_bits:
  assumes "tileId c = TileNum n" and "n \<noteq> - 1" and "- (2 ^ 31) \<le> n" and "n < 2 ^ 31"
  shows "cell_text_gba c
           = decimalToHex (n OR (if flippedHorizontally c then 2 ^ 10 else 0)
                             OR (if flippedVertically c then 2 ^ 11 else 0)) 4 @ '', ''
    \<and> (0 \<le> n \<and> n < 1024 \<longrightarrow>
          bit (n OR (if flippedHorizontally c then 2 ^ 10 else 0)
                 OR (if flippedVertically c then 2 ^ 11 else 0)) 10 = flippedHorizontally c
        \<and> bit (n OR (if flippedHorizontally c then 2 ^ 10 else 0)
                 OR (if flippedVertically c then 2 ^ 11 else 0)) 11 = flippedVertically c
        \<and> take_bit 10 (n OR (if flippedHorizontally c then 2 ^ 10 else 0)
                 OR (if flippedVertically c then 2 ^ 11 else 0)) = n)
    \<and> cell_text_gba \<lparr>tileId = TileNum 5, flippedHorizontally = True, flippedVertically = False\<rparr>
          = ''0x0405, ''
    \<and> cell_text_gba \<lparr>tileId = TileNum 5, flippedHorizontally = True, flippedVertically = True\<rparr>
          = ''0x0C05, ''"
proof -
  have a: "cell_text_gba \<lparr>tileId = TileNum 5, flippedHorizontally = True, flippedVertically = False\<rparr>
      = ''0x0405, ''"
    by code_simp
  have b: "cell_text_gba \<lparr>tileId = TileNum 5, flippedHorizontally = True, flippedVertically = True\<rparr>
      = ''0x0C05, ''"
    by code_simp
  show ?thesis
    using cell_text_gba_value [OF assms] flip_value_bits [of n "flippedHorizontally c" "flippedVertically c"]
      a b
    unfolding flip_value_def by blast
qed

text \<open>The theorem at tileId 7, flipped vertically only: the value is 2055.\<close>

theorem gba_flip_bits_witness:
  "tileId \<lparr>tileId = TileNum 7, flippedHorizontally = False, flippedVertically = True\<rparr> = TileNum 7
   \<and> (7::int) \<noteq> - 1 \<and> - (2 ^ 31) \<le> (7::int) \<and> (7::int) < 2 ^ 31 \<and> (0::int) \<le> 7 \<and> (7::int) < 1024
   \<and> cell_text_gba \<lparr>tileId = TileNum 7, flippedHorizontally = False, flippedVertically = True\<rparr>
        = decimalToHex 2055 4 @ '', ''
   \<and> \<not> bit (2055::int) 10 \<and> bit (2055::int) 11 \<and> take_bit 10 (2055::int) = 7"
proof -
  have v: "(7::int) OR 0 OR 2 ^ 11 = 2055"
    by simp
  from gba_flip_bits [of "\<lparr>tileId = TileNum 7, flippedHorizontally = False, flippedVertically = True\<rparr>" 7]
  show ?thesis
    unfolding cell.simps if_True if_False v by simp
qed

text \<open>
  C3. In both modes a cell whose tileId is the blank sentinel, the number -1 or the string
  \<open>"-1"\<close>, is emitted as \<open>0x0000\<close>, whatever its flip flags are.
\<close>

theorem blank_cell_text:
  assumes "tileId c = TileNum (- 1) \<or> tileId c = TileStrM1"
  shows "cell_text_gba c = ''0x0000, '' \<and> cell_text_affine c = ''0x0000, ''"
  using assms by (auto simp: cell_text_gba_def cell_text_affine_def)

text \<open>The theorem at two blank cells with flip flags set.\<close>

theorem blank_cell_text_witness:
  "cell_text_gba \<lparr>tileId = TileNum (- 1), flippedHorizontally = True, flippedVertically = True\<rparr>
     = ''0x0000, ''
   \<and> cell_text_affine \<lparr>tileId = TileNum (- 1), flippedHorizontally = True, flippedVertically = True\<rparr>
     = ''0x0000, ''
   \<and> cell_text_gba \<lparr>tileId = TileStrM1, flippedHorizontally = True, flippedVertically = False\<rparr>
     = ''0x0000, ''
   \<and> cell_text_affine \<lparr>tileId = TileStrM1, flippedHorizontally = True, flippedVertically = False\<rparr>
     = ''0x0000, ''"
  using blank_cell_text [of "\<lparr>tileId = TileNum (- 1), flippedHorizontally = True, flippedVertically = True\<rparr>"]
    blank_cell_text [of "\<lparr>tileId = TileStrM1, flippedHorizontally = True, flippedVertically = False\<rparr>"]
  by simp

text \<open>
  C4. In affine mode \<open>write\<close> returns nothing (the export proceeds, and writes the two
  files) if and only if the map is 16x16, 32x32, 64x64 or 128x128. For every other size it
  returns the message ending in \<open>Map must be 16x16, 32x32, 64x64 or 128x128 in size.\<close>,
  and the only effect before the return is the start of the console timer: no file is
  written.
\<close>

theorem affine_size_check:
  "(fst (write_affine FileInfo p_map p_fileName) = None
      \<longleftrightarrow> (width p_map, height p_map) \<in> {(16, 16), (32, 32), (64, 64), (128, 128)})
   \<and> ((width p_map, height p_map) \<notin> {(16, 16), (32, 32), (64, 64), (128, 128)} \<longrightarrow>
        fst (write_affine FileInfo p_map p_fileName)
          = Some (''Invalid map size! '' @ ''Map must be 16x16, 32x32, 64x64 or 128x128 in size.'')
        \<and> snd (write_affine FileInfo p_map p_fileName) = [ConsoleTime ''Export completed in'']
        \<and> filter is_write (snd (write_affine FileInfo p_map p_fileName)) = [])
   \<and> ((width p_map, height p_map) \<in> {(16, 16), (32, 32), (64, 64), (128, 128)} \<longrightarrow>
        length (filter is_write (snd (write_affine FileInfo p_map p_fileName))) = 2)"
proof (cases "valid_affine_size p_map")
  case True
  then have "(width p_map, height p_map) \<in> {(16, 16), (32, 32), (64, 64), (128, 128)}"
    by (auto simp: valid_affine_size_def)
  moreover have "fst (write_affine FileInfo p_map p_fileName) = None"
    and "length (filter is_write (snd (write_affine FileInfo p_map p_fileName))) = 2"
    using True by (simp_all add: write_affine_def Let_def is_write_def)
  ultimately show ?thesis by simp
next
  case False
  then have "(width p_map, height p_map) \<notin> {(16, 16), (32, 32), (64, 64), (128, 128)}"
    by (auto simp: valid_affine_size_def)
  moreover have "write_affine FileInfo p_map p_fileName
      = (Some ''Invalid map size! Map must be 16x16, 32x32, 64x64 or 128x128 in size.'',
         [ConsoleTime ''Export completed in''])"
    using False by (simp add: write_affine_def)
  ultimately show ?thesis by (simp add: is_write_def)
qed

text \<open>The theorem at a 16x16 map and at a 30x30 map.\<close>

theorem affine_size_check_witness:
  "fst (write_affine stub_info (empty_map 16 16) ''m.c'') = None
   \<and> length (filter is_write (snd (write_affine stub_info (empty_map 16 16) ''m.c''))) = 2
   \<and> fst (write_affine stub_info (empty_map 30 30) ''m.c'')
        = Some ''Invalid map size! Map must be 16x16, 32x32, 64x64 or 128x128 in size.''
   \<and> filter is_write (snd (write_affine stub_info (empty_map 30 30) ''m.c'')) = []"
  using affine_size_check [of stub_info "empty_map 16 16" "''m.c''"]
    affine_size_check [of stub_info "empty_map 30 30" "''m.c''"]
  by (simp add: empty_map_def is_write_def)

text \<open>
  C5 (as amended). In regular mode \<open>write\<close> returns nothing (the export proceeds, and
  writes the two files) if and only if width and height are both multiples of 32; the
  guard does not look at the sign, so a width or height of 0 passes. For every other map it
  returns the message ending in \<open>Map width and height must be a multiple of 32.\<close> and
  has no effect at all.
\<close>

theorem gba_size_check:
  "(fst (write_gba FileInfo p_map p_fileName) = None
      \<longleftrightarrow> width p_map mod 32 = 0 \<and> height p_map mod 32 = 0)
   \<and> (\<not> (width p_map mod 32 = 0 \<and> height p_map mod 32 = 0) \<longrightarrow>
        fst (write_gba FileInfo p_map p_fileName)
          = Some (''Export failed: Invalid map size! ''
                  @ ''Map width and height must be a multiple of 32.'')
        \<and> snd (write_gba FileInfo p_map p_fileName) = [])
   \<and> (width p_map mod 32 = 0 \<and> height p_map mod 32 = 0 \<longrightarrow>
        length (filter is_write (snd (write_gba FileInfo p_map p_fileName))) = 2)"
proof (cases "width p_map mod 32 = 0 \<and> height p_map mod 32 = 0")
  case True
  then have "fst (write_gba FileInfo p_map p_fileName) = None"
    and "length (filter is_write (snd (write_gba FileInfo p_map p_fileName))) = 2"
    by (simp_all add: write_gba_def js_rem_32 Let_def is_write_def)
  then show ?thesis using True by simp
next
  case False
  then have "js_rem (width p_map) 32 \<noteq> 0 \<or> js_rem (height p_map) 32 \<noteq> 0"
    by (simp add: js_rem_32)
  then have "write_gba FileInfo p_map p_fileName
      = (Some ''Export failed: Invalid map size! Map width and height must be a multiple of 32.'',
         [])"
    by (simp add: write_gba_def)
  then show ?thesis using False by simp
qed

text \<open>The theorem at a 64x32 map and at a 33x32 map.\<close>

theorem gba_size_check_witness:
  "fst (write_gba stub_info (empty_map 64 32) ''m.c'') = None
   \<and> length (filter is_write (snd (write_gba stub_info (empty_map 64 32) ''m.c''))) = 2
   \<and> fst (write_gba stub_info (empty_map 33 32) ''m.c'')
        = Some ''Export failed: Invalid map size! Map width and height must be a multiple of 32.''
   \<and> snd (write_gba stub_info (empty_map 33 32) ''m.c'') = []"
  using gba_size_check [of stub_info "empty_map 64 32" "''m.c''"]
    gba_size_check [of stub_info "empty_map 33 32" "''m.c''"]
  by (simp add: empty_map_def is_write_def)

text \<open>
  C5 as stated fails: for a map of width 0 and height 0 the export proceeds and writes both
  files, though neither is positive.
\<close>

theorem gba_size_check_counterexample:
  "\<not> (fst (write_gba stub_info zero_map ''m.c'') = None
        \<longleftrightarrow> width zero_map mod 32 = 0 \<and> height zero_map mod 32 = 0
            \<and> 0 < width zero_map \<and> 0 < height zero_map)
   \<and> length (filter is_write (snd (write_gba stub_info zero_map ''m.c''))) = 2"
  by (simp add: write_gba_def js_rem_32 Let_def is_write_def zero_map_def)

text \<open>
  C7. In regular mode, for a layer that is not a tile layer, no array body is appended, and
  the close step still cuts exactly three characters off the end of the accumulated source
  text (here the newline, brace and newline that opened the array) before it appends the
  closing text.
\<close>

theorem gba_non_tile_layer_close:
  assumes "\<not> isTileLayer L"
  shows "snd (layer_step_gba n L (h, s))
           = slice_end 3 (s @ array_decl n L @ nl @ ''{'' @ nl) @ nl @ ''};'' @ nl @ nl
    \<and> length (slice_end 3 (s @ array_decl n L @ nl @ ''{'' @ nl)) + 3
           = length (s @ array_decl n L @ nl @ ''{'' @ nl)
    \<and> snd (layer_step_gba n L (h, s)) = s @ array_decl n L @ nl @ ''};'' @ nl @ nl"
proof -
  have cut: "slice_end 3 ((s @ array_decl n L) @ (nl @ ''{'' @ nl)) = s @ array_decl n L"
    by (rule slice_end_exact) (simp add: nl_def)
  have step: "snd (layer_step_gba n L (h, s))
      = slice_end 3 (s @ array_decl n L @ nl @ ''{'' @ nl) @ nl @ ''};'' @ nl @ nl"
    using assms by (simp add: layer_step_gba_def Let_def array_decl_def)
  have len: "length (slice_end 3 (s @ array_decl n L @ nl @ ''{'' @ nl)) + 3
      = length (s @ array_decl n L @ nl @ ''{'' @ nl)"
    using cut by (simp add: nl_def)
  show ?thesis
    using step len cut by simp
qed

text \<open>The theorem at an object layer that follows some earlier text.\<close>

theorem gba_non_tile_layer_close_witness:
  "\<not> isTileLayer object_layer
   \<and> snd (layer_step_gba 256 object_layer ([], ''0x0001, ''))
        = ''0x0001, const unsigned short objs[256] __attribute__((aligned(4))) ='' @ nl @ ''};'' @ nl @ nl"
proof -
  have nt: "\<not> isTileLayer object_layer"
    by (simp add: object_layer_def)
  have decl: "array_decl 256 object_layer = ''const unsigned short objs[256] __attribute__((aligned(4))) =''"
    by code_simp
  from gba_non_tile_layer_close [OF nt, of 256 "[]" "''0x0001, ''"]
  have "snd (layer_step_gba 256 object_layer ([], ''0x0001, ''))
      = ''0x0001, '' @ array_decl 256 object_layer @ nl @ ''};'' @ nl @ nl"
    by (elim conjE)
  then show ?thesis
    using nt unfolding decl by simp
qed

text \<open>
  C6. In affine mode, for a layer that is not a tile layer, the extern declaration is
  written to the header, but the array opened in the source is never closed: for the 16x16
  map with one object layer the source text ends with the opening brace and holds no
  closing brace.
\<close>

theorem affine_non_tile_layer_unclosed:
  "fst (export_affine ''m'' objects_map)
     = header_start_affine ''m'' objects_map
       @ ''extern const unsigned short objs[256];'' @ nl @ header_end
   \<and> snd (export_affine ''m'' objects_map)
     = source_start ''m'' @ ''const unsigned short objs[256] __attribute__((aligned(4))) ='' @ nl @ ''{''
   \<and> CHR ''}'' \<notin> set (snd (export_affine ''m'' objects_map))"
proof -
  have nt: "\<not> isTileLayer object_layer"
    by (simp add: object_layer_def)
  have decl: "array_decl 256 object_layer = ''const unsigned short objs[256] __attribute__((aligned(4))) =''"
    by code_simp
  have ext: "extern_decl 256 object_layer = ''extern const unsigned short objs[256];'' @ nl"
    by code_simp
  have m: "width objects_map * height objects_map = 256" "layers objects_map = [object_layer]"
    by (simp_all add: objects_map_def)
  have cut: "slice_end 1 ((source_start ''m'' @ array_decl 256 object_layer @ nl @ ''{'') @ nl)
      = source_start ''m'' @ array_decl 256 object_layer @ nl @ ''{''"
    by (rule slice_end_exact) (simp add: nl_def)
  have out: "export_affine ''m'' objects_map
      = (header_start_affine ''m'' objects_map @ extern_decl 256 object_layer @ header_end,
         source_start ''m'' @ array_decl 256 object_layer @ nl @ ''{'')"
    using cut by (simp add: export_affine_text m layer_source_affine_non_tile [OF nt])
  have src: "snd (export_affine ''m'' objects_map)
      = source_start ''m'' @ ''const unsigned short objs[256] __attribute__((aligned(4))) ='' @ nl @ ''{''"
    unfolding out snd_conv decl ..
  have "CHR ''}'' \<notin> set (snd (export_affine ''m'' objects_map))"
    unfolding src by (simp add: source_start_def nl_def dquote_def)
  then show ?thesis
    using src out ext by simp
qed

text \<open>
  C8. Round trip. A 32x32 map with one 32x32 tile layer whose cell at \<open>(x, y)\<close> has
  tileId \<open>32 y + x\<close> and no flip flag is exported in regular mode: \<open>write\<close> returns
  nothing and writes two files; the header is the opening text, one extern declaration
  of an array of length 1024, and the closing text; and the source, read back by taking the
  text between the braces, splitting it on commas and decoding the \<open>0x\<close> value of each
  piece that has one, gives 0, 1, ..., 1023 in that order.
\<close>

theorem gba_round_trip:
  assumes "layers p_map = [L]" and "width p_map = 32" and "height p_map = 32"
    and "isTileLayer L" and "layer_width L = 32" and "layer_height L = 32"
    and "\<forall>x y. 0 \<le> x \<and> x < 32 \<and> 0 \<le> y \<and> y < 32 \<longrightarrow>
      cellAt L x y = \<lparr>tileId = TileNum (32 * y + x), flippedHorizontally = False,
                       flippedVertically = False\<rparr>"
  shows "fst (write_gba FileInfo p_map p_fileName) = None
    \<and> (\<exists>hdr src. written (snd (write_gba FileInfo p_map p_fileName)) = [hdr, src]
          \<and> hdr = header_start_gba (sanitize (completeBaseName FileInfo p_fileName)) p_map
                  @ ''extern const unsigned short '' @ sanitize (name L) @ ''[1024];'' @ nl
                  @ header_end
          \<and> map decode_entry (entries (initializer src)) = map Some [0..<1024])"
proof -
  let ?base = "sanitize (completeBaseName FileInfo p_fileName)"
  have bx: "blocks_x L = 1" and bh: "blocks_y L = 1"
    using assms(5,6) by (simp_all add: blocks_x_exact blocks_y_exact)
  have long: "3 \<le> length (body_text L)"
    and ents: "entries (nl @ slice_end 3 (body_text L) @ nl) = body_entries L"
    using body_text_sliced [of L] bx bh by simp_all
  have out: "export_gba ?base p_map
      = (header_start_gba ?base p_map @ extern_decl 1024 L @ header_end,
         slice_end 1 (source_start ?base @ layer_source_gba 1024 L))"
    by (simp add: export_gba_text assms(1-3))
  have hdr: "extern_decl 1024 L = ''extern const unsigned short '' @ sanitize (name L) @ ''[1024];'' @ nl"
    by (simp add: extern_decl_def num_str_1024)
  have "initializer (slice_end 1 (source_start ?base @ layer_source_gba 1024 L))
      = nl @ slice_end 3 (body_text L) @ nl"
    using sanitize_no_brace assms(4) long by (rule initializer_single_tile_layer)
  then have "map decode_entry (entries (initializer (snd (export_gba ?base p_map))))
      = map Some [0..<1024]"
    unfolding out snd_conv ents using assms(5-7) by (simp add: ents decode_body_entries_seq)
  moreover have "fst (export_gba ?base p_map)
      = header_start_gba ?base p_map @ ''extern const unsigned short '' @ sanitize (name L)
        @ ''[1024];'' @ nl @ header_end"
    unfolding out fst_conv hdr by simp
  moreover have "write_gba FileInfo p_map p_fileName
      = (None,
         [WriteFile (toNativeSeparators FileInfo (path FileInfo p_fileName @ ''/'') @ ?base @ ''.h'')
            (fst (export_gba ?base p_map)),
          TiledLog (''Tilemap exported to '' @ toNativeSeparators FileInfo (path FileInfo p_fileName @ ''/'')
            @ ?base @ ''.h''),
          WriteFile (toNativeSeparators FileInfo (path FileInfo p_fileName @ ''/'') @ ?base @ ''.c'')
            (snd (export_gba ?base p_map)),
          TiledLog (''Tilemap exported to '' @ toNativeSeparators FileInfo (path FileInfo p_fileName @ ''/'')
            @ ?base @ ''.c'')])"
    by (simp add: write_gba_def js_rem_32 assms(2,3) Let_def)
  ultimately show ?thesis
    by (simp add: written_def)
qed

text \<open>The theorem at the layer of sequential tile ids named \<open>My Layer #1\<close>.\<close>

theorem gba_round_trip_witness:
  "layers \<lparr>width = 32, height = 32, layers = [seq_layer]\<rparr> = [seq_layer]
   \<and> isTileLayer seq_layer \<and> layer_width seq_layer = 32 \<and> layer_height seq_layer = 32
   \<and> cellAt seq_layer 31 31
        = \<lparr>tileId = TileNum 1023, flippedHorizontally = False, flippedVertically = False\<rparr>
   \<and> fst (write_gba stub_info \<lparr>width = 32, height = 32, layers = [seq_layer]\<rparr> ''m.c'') = None
   \<and> (\<exists>hdr src.
         written (snd (write_gba stub_info \<lparr>width = 32, height = 32, layers = [seq_layer]\<rparr> ''m.c''))
           = [hdr, src]
         \<and> map decode_entry (entries (initializer src)) = map Some [0..<1024])"
proof -
  have cells: "\<forall>x y. 0 \<le> x \<and> x < 32 \<and> 0 \<le> y \<and> y < 32 \<longrightarrow>
      cellAt seq_layer x y = \<lparr>tileId = TileNum (32 * y + x), flippedHorizontally = False,
                       flippedVertically = False\<rparr>"
    by (simp add: seq_layer_def seq_cell_def)
  have l: "isTileLayer seq_layer" "layer_width seq_layer = 32" "layer_height seq_layer = 32"
    by (simp_all add: seq_layer_def)
  have c: "cellAt seq_layer 31 31
      = \<lparr>tileId = TileNum 1023, flippedHorizontally = False, flippedVertically = False\<rparr>"
    by (simp add: seq_layer_def seq_cell_def)
  from gba_round_trip [of "\<lparr>width = 32, height = 32, layers = [seq_layer]\<rparr>" seq_layer stub_info "''m.c''"]
    l cells
  have "fst (write_gba stub_info \<lparr>width = 32, height = 32, layers = [seq_layer]\<rparr> ''m.c'') = None
   \<and> (\<exists>hdr src.
         written (snd (write_gba stub_info \<lparr>width = 32, height = 32, layers = [seq_layer]\<rparr> ''m.c''))
           = [hdr, src]
         \<and> map decode_entry (entries (initializer src)) = map Some [0..<1024])"
    by auto
  then show ?thesis
    using l c by simp
qed

text \<open>
  C10. In both modes everything \<open>write\<close> returns, writes and logs is a function of the
  file name, the map's width and height, and per layer the name, the kind, the size and the
  cells at coordinates that are not negative: two maps that agree on these give the same
  result, whatever else differs between them.
\<close>

theorem export_deterministic:
  assumes "same_map m1 m2"
  shows "write_gba FileInfo m1 p_fileName = write_gba FileInfo m2 p_fileName
    \<and> write_affine FileInfo m1 p_fileName = write_affine FileInfo m2 p_fileName"
proof -
  have w: "width m1 = width m2" and h: "height m1 = height m2"
    and ls: "list_all2 same_layer (layers m1) (layers m2)"
    using assms by (simp_all add: same_map_def)
  let ?n = "width m2 * height m2"
  have ext: "map (extern_decl ?n) (layers m1) = map (extern_decl ?n) (layers m2)"
    using ls same_layer_decl(2) by (rule list_all2_map_eq)
  have gba: "map (layer_source_gba ?n) (layers m1) = map (layer_source_gba ?n) (layers m2)"
    using ls same_layer_source_gba by (rule list_all2_map_eq)
  have aff: "map (layer_source_affine m1 ?n) (layers m1) = map (layer_source_affine m2 ?n) (layers m2)"
    using ls same_layer_source_affine [OF _ w h] by (rule list_all2_map_eq)
  have "export_gba base m1 = export_gba base m2" for base
    unfolding export_gba_text using w h ext gba by (simp add: header_start_gba_def)
  moreover have "export_affine base m1 = export_affine base m2" for base
    unfolding export_affine_text using w h ext aff by (simp add: header_start_affine_def)
  ultimately show ?thesis
    using w h by (simp add: write_gba_def write_affine_def valid_affine_size_def)
qed

text \<open>The theorem at two maps whose layers differ only at negative coordinates.\<close>

theorem export_deterministic_witness:
  "same_map \<lparr>width = 32, height = 32, layers = [seq_layer]\<rparr>
            \<lparr>width = 32, height = 32, layers = [shadow_layer]\<rparr>
   \<and> cellAt seq_layer (- 2) 0 \<noteq> cellAt shadow_layer (- 2) 0
   \<and> write_gba stub_info \<lparr>width = 32, height = 32, layers = [seq_layer]\<rparr> ''m.c''
       = write_gba stub_info \<lparr>width = 32, height = 32, layers = [shadow_layer]\<rparr> ''m.c''
   \<and> write_affine stub_info \<lparr>width = 32, height = 32, layers = [seq_layer]\<rparr> ''m.c''
       = write_affine stub_info \<lparr>width = 32, height = 32, layers = [shadow_layer]\<rparr> ''m.c''"
proof -
  have same: "same_map \<lparr>width = 32, height = 32, layers = [seq_layer]\<rparr>
            \<lparr>width = 32, height = 32, layers = [shadow_layer]\<rparr>"
    by (simp add: same_map_def same_layer_def shadow_layer_def seq_layer_def)
  have diff: "cellAt seq_layer (- 2) 0 \<noteq> cellAt shadow_layer (- 2) 0"
    by (simp add: shadow_layer_def seq_layer_def seq_cell_def blank_cell_def)
  from export_deterministic [OF same, of stub_info "''m.c''"] same diff
  show ?thesis by blast
qed

end
